theory Spec2Isabelle
  imports Complex_Main
begin

section \<open>Values, envelopes and the connection object\<close>

text \<open>
  The development follows the class \<open>ZilaConnection\<close> of \<open>src/index.ts\<close> (the current
  variant, the first class of that file). Payloads are JavaScript values; a callable value
  is \<open>VFun\<close> with the identity of the function. Numbers are the finite doubles, read as
  reals; none of the modelled code computes on them, it only tests them for truthiness.
\<close>

datatype jsval =
    VUndefined
  | VNull
  | VBool bool
  | VNum real
  | VStr string
  | VArr "jsval list"
  | VObj "(string \<times> jsval) list"
  | VFun nat

text \<open>\<open>enum WSStatus\<close>, with the numeric value a TypeScript enum member has at run time.\<close>

datatype WSStatus = OPENING | OPEN | CLOSED | ERROR

fun status_val :: "WSStatus \<Rightarrow> jsval" where
  "status_val OPENING = VNum 0"
| "status_val OPEN = VNum 1"
| "status_val CLOSED = VNum 2"
| "status_val ERROR = VNum 3"

text \<open>\<open>interface WSMessage\<close>: the object handed to \<open>JSON.stringify\<close> on the way out and
  the object \<open>JSON.parse\<close> is declared to return on the way in.\<close>

record WSMessage =
  "identifier" :: string
  message :: jsval
  callbackId :: "string option"

text \<open>The keys of \<open>ICallableLocalEvents\<close> (the source's spelling).\<close>

datatype event =
    OnStatusChange
  | OnMessageRecieved
  | OnRawMessageRecieved
  | OnCookieSet
  | OnCookieDelete

text \<open>
  Functions are compared by reference (\<open>===\<close>, \<open>indexOf\<close>), so a function is modelled by
  what identifies it. \<open>UserFn f\<close> is the application's function number \<open>f\<close>;
  \<open>Resolver p\<close> is the closure \<open>(args) => { resolve(args) }\<close> that \<open>waiter\<close> creates for its
  promise number \<open>p\<close>; \<open>Member name\<close> is the value of the member \<open>name\<close> of
  \<open>Object.prototype\<close>, which the handler table inherits. A message handler is either the function that was registered or the
  \<open>async\<close> wrapper \<open>onceMessageHandler\<close> puts around it; a listener is either the
  application's function or the \<open>onceCallback\<close> closure of \<open>onceEventListener\<close>, which
  captures the event type and the wrapped function and has an identity of its own.
\<close>

datatype callback = UserFn nat | Resolver nat | Member string

datatype handler = Direct callback | OnceWrapper string callback

datatype listener = Listener nat | OnceCallback event nat nat

datatype error = ListenerAlreadyAdded event | SyntaxError | TypeError | Thrown

text \<open>How a call ends: normally, or by an exception (for an \<open>async\<close> function: its
  promise is fulfilled, or rejected).\<close>

datatype completion = Done | Raised error

datatype cookie_write = CookieSet jsval | CookieExpire jsval

text \<open>
  The private fields of the class (\<open>callbacks\<close>, \<open>localEventCallbacks\<close>, \<open>errorCallback\<close>,
  \<open>_status\<close>) and what the code does to its surroundings: \<open>sent\<close> is the transport spy
  (every object passed through \<open>JSON.stringify\<close> to \<open>connection.send\<close>, oldest first),
  \<open>invoked\<close> the calls made to callbacks, \<open>notified\<close> the calls the notification
  loops made to listeners (the event type, the arguments, and the value the public
  accessor \<open>status\<close> returns while the listener runs), \<open>settled\<close> the value each
  \<open>waiter\<close> promise was resolved with, \<open>promises\<close> and \<open>closures\<close> count the promises
  and \<open>onceCallback\<close> closures created so far, \<open>browser\<close> is the test
  \<open>typeof window !== "undefined" && typeof window.document !== "undefined"\<close> and
  \<open>document_cookie\<close> the assignments to \<open>document.cookie\<close>.
  The field \<open>callbacks\<close> holds the own entries of the handler table; what a read of the
  table returns is \<open>lookup\<close> below.
\<close>

record ZilaConnection =
  callbacks :: "string \<rightharpoonup> handler"
  localEventCallbacks :: "event \<rightharpoonup> listener list"
  errorCallback :: "nat option"
  status :: WSStatus
  sent :: "WSMessage list"
  invoked :: "(callback \<times> jsval list) list"
  notified :: "(event \<times> jsval list \<times> WSStatus) list"
  settled :: "nat \<rightharpoonup> jsval"
  promises :: nat
  closures :: nat
  browser :: bool
  document_cookie :: "cookie_write list"

text \<open>The object the private constructor builds (lines 149-152).\<close>

definition new_connection :: "nat option \<Rightarrow> bool \<Rightarrow> ZilaConnection" where
  "new_connection errorCallback' in_browser =
     \<lparr> callbacks = Map.empty, localEventCallbacks = Map.empty,
       errorCallback = errorCallback', status = OPENING, sent = [], invoked = [],
       notified = [], settled = Map.empty, promises = 0, closures = 0, browser = in_browser,
       document_cookie = [] \<rparr>"

section \<open>The listener registry\<close>

text \<open>\<open>Array.prototype.findIndex\<close> and \<open>indexOf\<close>: the first index, or \<open>-1\<close>.\<close>

fun findIndex :: "('a \<Rightarrow> bool) \<Rightarrow> 'a list \<Rightarrow> int" where
  "findIndex p [] = - 1"
| "findIndex p (x # xs) =
     (if p x then 0 else (let i = findIndex p xs in if i < 0 then - 1 else i + 1))"

definition indexOf :: "'a list \<Rightarrow> 'a \<Rightarrow> int" where
  "indexOf array x = findIndex (\<lambda>el. el = x) array"

text \<open>\<open>array.splice(id, 1)\<close>.\<close>

definition splice1 :: "nat \<Rightarrow> 'a list \<Rightarrow> 'a list" where
  "splice1 i array = take i array @ drop (Suc i) array"

text \<open>The sequence registered for an event type, empty when the entry is absent.\<close>

definition registered :: "ZilaConnection \<Rightarrow> event \<Rightarrow> listener list" where
  "registered c eventType =
     (case localEventCallbacks c eventType of None \<Rightarrow> [] | Some array \<Rightarrow> array)"

text \<open>\<open>addEventListener\<close>, lines 306-317.\<close>

definition addEventListener :: "event \<Rightarrow> listener \<Rightarrow> ZilaConnection \<Rightarrow> error + ZilaConnection" where
  "addEventListener eventType callback' c =
     (case localEventCallbacks c eventType of
        Some array \<Rightarrow>
          if findIndex (\<lambda>el. el = callback') array \<ge> 0
          then Inl (ListenerAlreadyAdded eventType)
          else Inr (c\<lparr>localEventCallbacks :=
                        (localEventCallbacks c)(eventType \<mapsto> array @ [callback'])\<rparr>)
      | None \<Rightarrow>
          Inr (c\<lparr>localEventCallbacks :=
                   (localEventCallbacks c)(eventType \<mapsto> [] @ [callback'])\<rparr>))"

text \<open>\<open>removeEventListener\<close>, lines 324-337. It has no \<open>throw\<close>: a total function.\<close>

definition removeEventListener :: "event \<Rightarrow> listener \<Rightarrow> ZilaConnection \<Rightarrow> ZilaConnection" where
  "removeEventListener eventType callback' c =
     (case localEventCallbacks c eventType of
        None \<Rightarrow> c
      | Some array \<Rightarrow>
          (let id = indexOf array callback' in
           if id = - 1 then c
           else (let array' = splice1 (nat id) array in
                 if length array' = 0
                 then c\<lparr>localEventCallbacks := (localEventCallbacks c)(eventType := None)\<rparr>
                 else c\<lparr>localEventCallbacks :=
                          (localEventCallbacks c)(eventType \<mapsto> array')\<rparr>)))"

text \<open>\<open>onceEventListener\<close>, lines 346-355: a fresh \<open>onceCallback\<close> closure is added.\<close>

definition onceEventListener :: "event \<Rightarrow> nat \<Rightarrow> ZilaConnection \<Rightarrow> error + ZilaConnection" where
  "onceEventListener eventType f c =
     addEventListener eventType (OnceCallback eventType (closures c) f)
       (c\<lparr>closures := closures c + 1\<rparr>)"

section \<open>The handler table and outbound calls\<close>

text \<open>\<open>setMessageHandler\<close>, \<open>removeMessageHandler\<close> and \<open>onceMessageHandler\<close>,
  lines 363-386. The wrapper stored by \<open>onceMessageHandler\<close> captures the identifier and
  the callback.\<close>

definition setMessageHandler :: "string \<Rightarrow> callback \<Rightarrow> ZilaConnection \<Rightarrow> ZilaConnection" where
  "setMessageHandler identifier' callback' c =
     c\<lparr>callbacks := (callbacks c)(identifier' \<mapsto> Direct callback')\<rparr>"

definition removeMessageHandler :: "string \<Rightarrow> ZilaConnection \<Rightarrow> ZilaConnection" where
  "removeMessageHandler identifier' c = c\<lparr>callbacks := (callbacks c)(identifier' := None)\<rparr>"

definition onceMessageHandler :: "string \<Rightarrow> callback \<Rightarrow> ZilaConnection \<Rightarrow> ZilaConnection" where
  "onceMessageHandler identifier' callback' c =
     c\<lparr>callbacks := (callbacks c)(identifier' \<mapsto> OnceWrapper identifier' callback')\<rparr>"

text \<open>
  The table is the plain object \<open>{}\<close> of line 67, so the read \<open>this.callbacks[id]\<close> of
  line 220 returns the own entry when there is one and otherwise what the object inherits
  from \<open>Object.prototype\<close> under that name. (An assignment to the key \<open>__proto__\<close>
  replaces the prototype of the table instead of adding an entry; the model keeps the
  prototype at \<open>Object.prototype\<close>, so a registration under that key is outside it.)
\<close>

definition object_prototype_members :: "string list" where
  "object_prototype_members =
     [''constructor'', ''__defineGetter__'', ''__defineSetter__'', ''hasOwnProperty'',
      ''__lookupGetter__'', ''__lookupSetter__'', ''isPrototypeOf'', ''propertyIsEnumerable'',
      ''toString'', ''valueOf'', ''__proto__'', ''toLocaleString'']"

definition lookup :: "ZilaConnection \<Rightarrow> string \<Rightarrow> handler option" where
  "lookup c identifier' =
     (case callbacks c identifier' of
        Some h \<Rightarrow> Some h
      | None \<Rightarrow>
          if identifier' \<in> set object_prototype_members
          then Some (Direct (Member identifier')) else None)"

text \<open>\<open>getMessageJSON\<close>, lines 238-250: the object it serialises.\<close>

definition getMessageJSON :: "string \<Rightarrow> jsval \<Rightarrow> string option \<Rightarrow> bool \<Rightarrow> WSMessage" where
  "getMessageJSON identifier' data callbackId' isBuiltIn =
     \<lparr> identifier = (if isBuiltIn then identifier' else ''@'' @ identifier'),
       message = data,
       callbackId = callbackId' \<rparr>"

text \<open>\<open>this.connection!.send(text)\<close>: the transport records what it is given.\<close>

definition connection_send :: "WSMessage \<Rightarrow> ZilaConnection \<Rightarrow> ZilaConnection" where
  "connection_send m c = c\<lparr>sent := sent c @ [m]\<rparr>"

text \<open>\<open>bSend\<close> (lines 258-260), \<open>send\<close> (lines 267-269) and \<open>waiter\<close> (lines 277-287).
  The rest parameter \<open>...data\<close> is the list \<open>data\<close>; \<open>uuid\<close> is what \<open>randomUUID()\<close>
  returned. \<open>waiter\<close> returns the number of the promise it created.\<close>

definition bSend :: "string \<Rightarrow> jsval list \<Rightarrow> ZilaConnection \<Rightarrow> ZilaConnection" where
  "bSend identifier' data c = connection_send (getMessageJSON identifier' (VArr data) None True) c"

definition send :: "string \<Rightarrow> jsval list \<Rightarrow> ZilaConnection \<Rightarrow> ZilaConnection" where
  "send identifier' data c = connection_send (getMessageJSON identifier' (VArr data) None False) c"

definition waiter :: "string \<Rightarrow> string \<Rightarrow> jsval list \<Rightarrow> ZilaConnection \<Rightarrow> nat \<times> ZilaConnection" where
  "waiter uuid identifier' data c =
     (let p = promises c;
          c1 = onceMessageHandler uuid (Resolver p) (c\<lparr>promises := promises c + 1\<rparr>);
          c2 = connection_send (getMessageJSON identifier' (VArr data) (Some uuid) False) c1
      in (p, c2))"

text \<open>\<open>send\<close> of the earlier variant \<open>unnamed/part_000\<close> (lines 231-243), which checks
  its arguments for functions before it builds the message.\<close>

fun is_function :: "jsval \<Rightarrow> bool" where
  "is_function (VFun f) = True"
| "is_function v = False"

datatype send_error = FunctionsProhibited

definition send_part_000 :: "string \<Rightarrow> jsval list \<Rightarrow> ZilaConnection \<Rightarrow> send_error + ZilaConnection" where
  "send_part_000 identifier' data c =
     (if length (filter is_function data) > 0 then Inl FunctionsProhibited
      else Inr (connection_send
                  \<lparr> identifier = identifier', message = VArr data, callbackId = None \<rparr> c))"

section \<open>The listener registry of the earlier class\<close>

text \<open>
  The second class of \<open>src/index.ts\<close> is an earlier variant of the same connection.
  Its \<open>addEventListener\<close> (lines 681-692) tests the result of \<open>findIndex\<close> for
  truthiness, and its \<open>removeEventListener\<close> (lines 699-717) throws when the callback
  is not found. They are modelled here only to set them beside the current class.
\<close>

datatype error_second = AlreadyAdded event | ReferenceError

definition addEventListener_second :: "event \<Rightarrow> listener \<Rightarrow> ZilaConnection \<Rightarrow> error_second + ZilaConnection" where
  "addEventListener_second eventType callback' c =
     (case localEventCallbacks c eventType of
        Some array \<Rightarrow>
          if findIndex (\<lambda>el. el = callback') array \<noteq> 0
          then Inl (AlreadyAdded eventType)
          else Inr (c\<lparr>localEventCallbacks :=
                        (localEventCallbacks c)(eventType \<mapsto> array @ [callback'])\<rparr>)
      | None \<Rightarrow>
          Inr (c\<lparr>localEventCallbacks :=
                   (localEventCallbacks c)(eventType \<mapsto> [] @ [callback'])\<rparr>))"

definition removeEventListener_second :: "event \<Rightarrow> listener \<Rightarrow> ZilaConnection \<Rightarrow> error_second + ZilaConnection" where
  "removeEventListener_second eventType callback' c =
     (case localEventCallbacks c eventType of
        None \<Rightarrow> Inr c
      | Some array \<Rightarrow>
          (let id = indexOf array callback' in
           if id = - 1 then Inl ReferenceError
           else (let array' = splice1 (nat id) array in
                 if length array' = 0
                 then Inr (c\<lparr>localEventCallbacks := (localEventCallbacks c)(eventType := None)\<rparr>)
                 else Inr (c\<lparr>localEventCallbacks :=
                               (localEventCallbacks c)(eventType \<mapsto> array')\<rparr>))))"

section \<open>Calling back into the application\<close>

text \<open>
  What an application function does when it is called is given by a \<open>program\<close>: the calls
  it makes on the connection, in order, and how it ends (it returns a value or a promise
  fulfilled with that value; it throws; or it returns a promise that is rejected or never
  settles). None of the methods it may call invokes a callback. Application functions are
  taken not to add listeners, so an array of listeners does not grow while it is iterated.
\<close>

datatype cmd =
    CallSetMessageHandler string nat
  | CallOnceMessageHandler string nat
  | CallRemoveMessageHandler string
  | CallRemoveEventListener event nat
  | CallSend string "jsval list"

datatype outcome = Returns jsval | Throws | Rejects

type_synonym program = "nat \<Rightarrow> jsval list \<Rightarrow> cmd list \<times> outcome"

fun run_cmd :: "cmd \<Rightarrow> ZilaConnection \<Rightarrow> ZilaConnection" where
  "run_cmd (CallSetMessageHandler i f) c = setMessageHandler i (UserFn f) c"
| "run_cmd (CallOnceMessageHandler i f) c = onceMessageHandler i (UserFn f) c"
| "run_cmd (CallRemoveMessageHandler i) c = removeMessageHandler i c"
| "run_cmd (CallRemoveEventListener e f) c = removeEventListener e (Listener f) c"
| "run_cmd (CallSend i data) c = send i data c"

definition call_user :: "program \<Rightarrow> nat \<Rightarrow> jsval list \<Rightarrow> ZilaConnection \<Rightarrow> ZilaConnection \<times> outcome" where
  "call_user prog f args c =
     (fold run_cmd (fst (prog f args)) (c\<lparr>invoked := invoked c @ [(UserFn f, args)]\<rparr>),
      snd (prog f args))"

text \<open>\<open>resolve(args)\<close> of a promise: only the first resolution counts.\<close>

definition resolve :: "nat \<Rightarrow> jsval \<Rightarrow> ZilaConnection \<Rightarrow> ZilaConnection" where
  "resolve p v c = (if settled c p = None then c\<lparr>settled := (settled c)(p \<mapsto> v)\<rparr> else c)"

text \<open>The first positional argument of a call, \<open>undefined\<close> when there is none.\<close>

fun first_arg :: "jsval list \<Rightarrow> jsval" where
  "first_arg [] = VUndefined"
| "first_arg (a # as) = a"

text \<open>
  A member of \<open>Object.prototype\<close> called as a plain function, that is without a
  receiver. \<open>Object(v)\<close> returns a new empty object when \<open>v\<close> is \<open>undefined\<close> or
  \<open>null\<close> (or missing) and otherwise \<open>v\<close> as an object (the wrapper of a primitive is
  written as the primitive, which is what it serialises to); \<open>toString\<close> returns
  \<open>"[object Undefined]"\<close>; \<open>isPrototypeOf\<close> returns \<open>false\<close> for a primitive argument;
  the other members convert the missing receiver to an object first, which throws a
  \<open>TypeError\<close>. The value under \<open>__proto__\<close> is \<open>Object.prototype\<close> itself, no
  function: the call expression throws a \<open>TypeError\<close>.
\<close>

fun is_object :: "jsval \<Rightarrow> bool" where
  "is_object (VArr xs) = True"
| "is_object (VObj kvs) = True"
| "is_object (VFun f) = True"
| "is_object v = False"

definition call_member :: "string \<Rightarrow> jsval list \<Rightarrow> outcome" where
  "call_member member args =
     (if member = ''constructor'' then
        Returns (case first_arg args of VUndefined \<Rightarrow> VObj [] | VNull \<Rightarrow> VObj [] | v \<Rightarrow> v)
      else if member = ''toString'' then Returns (VStr ''[object Undefined]'')
      else if member = ''isPrototypeOf'' then
        (if is_object (first_arg args) then Throws else Returns (VBool False))
      else Throws)"

text \<open>A \<open>ZilaWSCallback\<close> called with \<open>(...args)\<close>. The closure of \<open>waiter\<close>
  (lines 281-283) has one parameter, passes it to \<open>resolve\<close> and returns nothing.\<close>

fun call_callback :: "program \<Rightarrow> callback \<Rightarrow> jsval list \<Rightarrow> ZilaConnection \<Rightarrow> ZilaConnection \<times> outcome" where
  "call_callback prog (UserFn f) args c = call_user prog f args c"
| "call_callback prog (Resolver p) args c =
     (resolve p (first_arg args) (c\<lparr>invoked := invoked c @ [(Resolver p, args)]\<rparr>),
      Returns VUndefined)"
| "call_callback prog (Member member) args c =
     (c\<lparr>invoked := invoked c @ [(Member member, args)]\<rparr>, call_member member args)"

text \<open>An entry of the handler table called with \<open>(...args)\<close>. The wrapper of
  \<open>onceMessageHandler\<close> (lines 381-385) is \<open>async\<close>: it removes the entry, calls the
  callback, and an exception of the callback rejects the promise it returns.\<close>

fun call_handler :: "program \<Rightarrow> handler \<Rightarrow> jsval list \<Rightarrow> ZilaConnection \<Rightarrow> ZilaConnection \<times> outcome" where
  "call_handler prog (Direct cb) args c = call_callback prog cb args c"
| "call_handler prog (OnceWrapper identifier' cb) args c =
     (let r = call_callback prog cb args (removeMessageHandler identifier' c)
      in (fst r, if snd r = Throws then Rejects else snd r))"

text \<open>A listener called with \<open>(...args)\<close>; \<open>onceCallback\<close> (lines 349-352) removes
  itself and then applies the wrapped function.\<close>

fun call_listener :: "program \<Rightarrow> listener \<Rightarrow> jsval list \<Rightarrow> ZilaConnection \<Rightarrow> ZilaConnection \<times> outcome" where
  "call_listener prog (Listener f) args c = call_user prog f args c"
| "call_listener prog (OnceCallback eventType k f) args c =
     call_user prog f args (removeEventListener eventType (OnceCallback eventType k f) c)"

section \<open>Facts about the registry\<close>

lemma findIndex_ge_minus1: "- 1 \<le> findIndex p xs"
  by (induction xs) (auto simp: Let_def)

lemma findIndex_nonneg_iff: "0 \<le> findIndex p xs \<longleftrightarrow> (\<exists>x \<in> set xs. p x)"
  by (induction xs) (auto simp: Let_def)

lemma findIndex_minus1_iff: "findIndex p xs = - 1 \<longleftrightarrow> (\<forall>x \<in> set xs. \<not> p x)"
proof -
  have "findIndex p xs = - 1 \<longleftrightarrow> \<not> 0 \<le> findIndex p xs"
    using findIndex_ge_minus1 [of p xs] by linarith
  then show ?thesis by (simp add: findIndex_nonneg_iff)
qed

lemma splice1_findIndex: "0 \<le> findIndex (\<lambda>el. el = x) xs \<Longrightarrow>
    splice1 (nat (findIndex (\<lambda>el. el = x) xs)) xs = remove1 x xs"
proof (induction xs)
  case Nil
  then show ?case by simp
next
  case (Cons y ys)
  show ?case
  proof (cases "y = x")
    case True
    then show ?thesis by (simp add: splice1_def)
  next
    case False
    with Cons.prems have nn: "0 \<le> findIndex (\<lambda>el. el = x) ys"
      by (simp add: Let_def split: if_splits)
    have "nat (findIndex (\<lambda>el. el = x) ys + 1) = Suc (nat (findIndex (\<lambda>el. el = x) ys))"
      using nn by simp
    with False nn Cons.IH show ?thesis
      by (simp add: Let_def splice1_def)
  qed
qed

lemma registered_removeEventListener:
  "registered (removeEventListener e cb c) e' =
     (if e' = e then remove1 cb (registered c e) else registered c e')"
proof (cases "localEventCallbacks c e")
  case None
  then show ?thesis by (simp add: removeEventListener_def registered_def)
next
  case (Some array)
  show ?thesis
  proof (cases "indexOf array cb = - 1")
    case True
    then have "cb \<notin> set array"
      by (auto simp: indexOf_def findIndex_minus1_iff)
    then have "remove1 cb array = array" by (simp add: remove1_idem)
    with Some True show ?thesis
      by (simp add: removeEventListener_def registered_def)
  next
    case False
    then have nn: "0 \<le> findIndex (\<lambda>el. el = cb) array"
      using findIndex_ge_minus1 [of "\<lambda>el. el = cb" array] by (simp add: indexOf_def)
    have sp: "splice1 (nat (indexOf array cb)) array = remove1 cb array"
      unfolding indexOf_def by (rule splice1_findIndex [OF nn])
    from Some False sp show ?thesis
      by (auto simp: removeEventListener_def registered_def Let_def)
  qed
qed

lemma removeEventListener_absent:
  "cb \<notin> set (registered c e) \<Longrightarrow> removeEventListener e cb c = c"
  by (cases "localEventCallbacks c e")
     (auto simp: removeEventListener_def registered_def indexOf_def findIndex_minus1_iff)

lemma removeEventListener_entry:
  "localEventCallbacks (removeEventListener e cb c) e' =
     (if e' = e \<and> cb \<in> set (registered c e)
      then (if remove1 cb (registered c e) = [] then None
            else Some (remove1 cb (registered c e)))
      else localEventCallbacks c e')"
proof (cases "cb \<in> set (registered c e)")
  case False
  then show ?thesis by (simp add: removeEventListener_absent)
next
  case True
  then obtain array where Some: "localEventCallbacks c e = Some array" and mem: "cb \<in> set array"
    by (cases "localEventCallbacks c e") (auto simp: registered_def)
  from mem have nn: "0 \<le> findIndex (\<lambda>el. el = cb) array"
    by (auto simp: findIndex_nonneg_iff)
  then have ne: "indexOf array cb \<noteq> - 1" by (simp add: indexOf_def)
  have sp: "splice1 (nat (indexOf array cb)) array = remove1 cb array"
    unfolding indexOf_def by (rule splice1_findIndex [OF nn])
  from Some mem ne sp show ?thesis
    by (simp add: removeEventListener_def registered_def Let_def)
qed

lemma addEventListener_distinct:
  "addEventListener e cb c = Inr c' \<Longrightarrow> distinct (registered c e) \<Longrightarrow>
     distinct (registered c' e)"
  by (cases "localEventCallbacks c e")
     (auto simp: addEventListener_def registered_def findIndex_nonneg_iff split: if_splits)

lemma removeEventListener_distinct:
  "distinct (registered c e') \<Longrightarrow> distinct (registered (removeEventListener e cb c) e')"
  by (auto simp: registered_removeEventListener)

section \<open>Notifying listeners\<close>

lemma remove1_length_le: "length (remove1 x xs) \<le> length xs"
  by (simp add: length_remove1)

lemma registered_removeEventListener_le:
  "length (registered (removeEventListener e' cb c) e) \<le> length (registered c e)"
  by (simp add: registered_removeEventListener remove1_length_le)

lemma registered_run_cmd:
  "length (registered (run_cmd x c) e) \<le> length (registered c e)"
  by (cases x)
     (simp_all add: registered_removeEventListener_le,
      simp_all add: registered_def setMessageHandler_def onceMessageHandler_def
        removeMessageHandler_def send_def connection_send_def)

lemma registered_fold_run_cmd:
  "length (registered (fold run_cmd xs c) e) \<le> length (registered c e)"
proof (induction xs arbitrary: c)
  case Nil
  show ?case by simp
next
  case (Cons x xs)
  have "length (registered (fold run_cmd xs (run_cmd x c)) e) \<le> length (registered (run_cmd x c) e)"
    by (rule Cons.IH)
  also have "\<dots> \<le> length (registered c e)" by (rule registered_run_cmd)
  finally show ?case by simp
qed

lemma registered_call_user:
  "length (registered (fst (call_user prog f args c)) e) \<le> length (registered c e)"
proof -
  have "length (registered (fst (call_user prog f args c)) e)
          \<le> length (registered (c\<lparr>invoked := invoked c @ [(UserFn f, args)]\<rparr>) e)"
    unfolding call_user_def fst_conv by (rule registered_fold_run_cmd)
  then show ?thesis by (simp add: registered_def)
qed

lemma registered_call_listener:
  "length (registered (fst (call_listener prog l args c)) e) \<le> length (registered c e)"
proof (cases l)
  case (Listener f)
  then show ?thesis by (simp add: registered_call_user)
next
  case (OnceCallback e' k f)
  let ?c1 = "removeEventListener e' (OnceCallback e' k f) c"
  have "length (registered (fst (call_user prog f args ?c1)) e) \<le> length (registered ?c1 e)"
    by (rule registered_call_user)
  also have "\<dots> \<le> length (registered c e)"
    by (rule registered_removeEventListener_le)
  finally show ?thesis using OnceCallback by simp
qed

text \<open>
  \<open>for (const cb of array) cb(...args)\<close>: the array iterator reads the live array at
  index \<open>i\<close> and stops when \<open>i\<close> reaches its current length, so removals made by a
  callback are seen by the loop. There is no \<open>try\<close> around the call: an exception of a
  callback leaves the loop. (An entry deleted during the loop leaves the iterated array
  empty, and nothing adds to it.) Each call is recorded in \<open>notified\<close>, with the status
  the connection has at that moment.
\<close>

definition notice :: "event \<Rightarrow> jsval list \<Rightarrow> ZilaConnection \<Rightarrow> ZilaConnection" where
  "notice eventType args c = c\<lparr>notified := notified c @ [(eventType, args, status c)]\<rparr>"

lemma registered_notice: "registered (notice e args c) e' = registered c e'"
  by (simp add: notice_def registered_def)

function for_of :: "program \<Rightarrow> event \<Rightarrow> jsval list \<Rightarrow> nat \<Rightarrow> ZilaConnection \<Rightarrow> ZilaConnection \<times> completion" where
  "for_of prog eventType args i c =
     (if i < length (registered c eventType)
      then (let r = call_listener prog (registered c eventType ! i) args
                      (notice eventType args c)
            in if snd r = Throws then (fst r, Raised Thrown)
               else for_of prog eventType args (Suc i) (fst r))
      else (c, Done))"
  by pat_completeness auto
termination
proof (relation "measure (\<lambda>(prog, eventType, args, i, c). length (registered c eventType) - i)")
  show "wf (measure (\<lambda>(prog, eventType, args, i, c). length (registered c eventType) - i))"
    by simp
next
  fix prog :: program and eventType args i c r
  assume lt: "i < length (registered c eventType)"
    and r: "r = call_listener prog (registered c eventType ! i) args (notice eventType args c)"
  have "length (registered (fst r) eventType) \<le> length (registered (notice eventType args c) eventType)"
    unfolding r by (rule registered_call_listener)
  then have "length (registered (fst r) eventType) \<le> length (registered c eventType)"
    by (simp add: registered_notice)
  with lt show "((prog, eventType, args, Suc i, fst r), (prog, eventType, args, i, c))
      \<in> measure (\<lambda>(prog, eventType, args, i, c). length (registered c eventType) - i)"
    by simp
qed

declare for_of.simps [simp del]

text \<open>The guarded loops of \<open>callEventHandler\<close>:
  \<open>if (this.localEventCallbacks.X) for (const cb of this.localEventCallbacks.X) cb(...)\<close>.\<close>

definition notify :: "program \<Rightarrow> event \<Rightarrow> jsval list \<Rightarrow> ZilaConnection \<Rightarrow> ZilaConnection \<times> completion" where
  "notify prog eventType args c =
     (case localEventCallbacks c eventType of
        None \<Rightarrow> (c, Done)
      | Some array \<Rightarrow> for_of prog eventType args 0 c)"

text \<open>The setter of \<open>status\<close>, lines 79-86: the field is written first, then the
  listeners of \<open>onStatusChange\<close> are called with the new value.\<close>

definition set_status :: "program \<Rightarrow> WSStatus \<Rightarrow> ZilaConnection \<Rightarrow> ZilaConnection \<times> completion" where
  "set_status prog v c =
     (let c1 = c\<lparr>status := v\<rparr> in
      case localEventCallbacks c1 OnStatusChange of
        Some array \<Rightarrow>
          if length array > 0 then for_of prog OnStatusChange [status_val v] 0 c1
          else (c1, Done)
      | None \<Rightarrow> (c1, Done))"

section \<open>The dispatch loop\<close>

text \<open>
  \<open>const msgObj: WSMessage = JSON.parse(msg)\<close> followed by \<open>msgObj.identifier[0]\<close>.
  \<open>JSON.parse\<close> is the platform's and is a parameter of the model: it throws a
  \<open>SyntaxError\<close> (\<open>Unparsable\<close>), or returns a value without an \<open>identifier\<close> member, on
  which \<open>msgObj.identifier[0]\<close> throws a \<open>TypeError\<close> (\<open>NoIdentifier\<close>), or returns a
  value of the declared type \<open>WSMessage\<close>.
\<close>

datatype decoded = Unparsable | NoIdentifier | Envelope WSMessage

text \<open>JavaScript truthiness, and the spread \<open>...v\<close> of a value into arguments (arrays and
  strings are iterable; spreading any other value here throws a \<open>TypeError\<close>).\<close>

fun truthy :: "jsval \<Rightarrow> bool" where
  "truthy VUndefined = False"
| "truthy VNull = False"
| "truthy (VBool b) = b"
| "truthy (VNum n) = (n \<noteq> 0)"
| "truthy (VStr s) = (s \<noteq> [])"
| "truthy (VArr xs) = True"
| "truthy (VObj kvs) = True"
| "truthy (VFun f) = True"

fun spread :: "jsval \<Rightarrow> jsval list option" where
  "spread (VArr xs) = Some xs"
| "spread (VStr s) = Some (map (\<lambda>ch. VStr [ch]) s)"
| "spread v = None"

text \<open>The branch for identifiers that start with \<open>@\<close>, lines 188-212.\<close>

definition control :: "program \<Rightarrow> WSMessage \<Rightarrow> ZilaConnection \<Rightarrow> ZilaConnection \<times> completion" where
  "control prog msgObj c =
     (if identifier msgObj = ''@SetCookie'' then
        (if browser c then
           notify prog OnCookieSet [message msgObj]
             (c\<lparr>document_cookie := document_cookie c @ [CookieSet (message msgObj)]\<rparr>)
         else (c, Done))
      else if identifier msgObj = ''@DelCookie'' then
        (if browser c then
           notify prog OnCookieDelete [message msgObj]
             (c\<lparr>document_cookie := document_cookie c @ [CookieExpire (message msgObj)]\<rparr>)
         else (c, Done))
      else (c, Done))"

text \<open>
  Lines 220-227: the table is read, what it returns is called when the message is truthy, and the
  continuation \<open>.then((val) => ...)\<close> replies through \<open>send\<close> when the envelope carries a
  truthy \<open>callbackId\<close>. The continuation is run as part of the step; it does not run when
  the handler's promise is rejected or never settles.
\<close>

definition dispatch :: "program \<Rightarrow> WSMessage \<Rightarrow> ZilaConnection \<Rightarrow> ZilaConnection \<times> completion" where
  "dispatch prog msgObj c =
     (case lookup c (identifier msgObj) of
        None \<Rightarrow> (c, Done)
      | Some callback' \<Rightarrow>
          if truthy (message msgObj) then
            (case spread (message msgObj) of
               None \<Rightarrow> (c, Raised TypeError)
             | Some args \<Rightarrow>
                 (case call_handler prog callback' args c of
                    (c', Throws) \<Rightarrow> (c', Raised Thrown)
                  | (c', Rejects) \<Rightarrow> (c', Done)
                  | (c', Returns val) \<Rightarrow>
                      (case callbackId msgObj of
                         Some cbid \<Rightarrow> if cbid \<noteq> [] then (send cbid [val] c', Done) else (c', Done)
                       | None \<Rightarrow> (c', Done))))
          else (c, Done))"

text \<open>\<open>callEventHandler\<close>, lines 178-228. It is \<open>async\<close>: an exception inside it
  rejects the promise it returns, which \<open>onmessage\<close> drops.\<close>

definition callEventHandler :: "program \<Rightarrow> (string \<Rightarrow> decoded) \<Rightarrow> string \<Rightarrow> ZilaConnection \<Rightarrow> ZilaConnection \<times> completion" where
  "callEventHandler prog JSON_parse msg c =
     (case notify prog OnRawMessageRecieved [VStr msg] c of
        (c1, Raised e) \<Rightarrow> (c1, Raised e)
      | (c1, Done) \<Rightarrow>
          (case JSON_parse msg of
             Unparsable \<Rightarrow> (c1, Raised SyntaxError)
           | NoIdentifier \<Rightarrow> (c1, Raised TypeError)
           | Envelope msgObj \<Rightarrow>
               if take 1 (identifier msgObj) = ''@'' then control prog msgObj c1
               else (case notify prog OnMessageRecieved [message msgObj] c1 of
                       (c2, Raised e) \<Rightarrow> (c2, Raised e)
                     | (c2, Done) \<Rightarrow> dispatch prog msgObj c2)))"

section \<open>The transport's callbacks\<close>

text \<open>
  The handlers the constructor installs (lines 154-171) and the \<open>onerror\<close> handler that
  \<open>connectTo\<close> installs (lines 125-129), which calls the error callback given to
  \<open>connectTo\<close> without arguments and leaves the status alone. Console output is not
  modelled, so the close code, which only selects a log line, is left out.
\<close>

definition onopen :: "program \<Rightarrow> ZilaConnection \<Rightarrow> ZilaConnection \<times> completion" where
  "onopen prog c = set_status prog OPEN c"

definition onclose :: "program \<Rightarrow> string \<Rightarrow> ZilaConnection \<Rightarrow> ZilaConnection \<times> completion" where
  "onclose prog reason c =
     (case set_status prog CLOSED c of
        (c1, Raised e) \<Rightarrow> (c1, Raised e)
      | (c1, Done) \<Rightarrow>
          (case errorCallback c1 of
             Some f \<Rightarrow>
               (let r = call_user prog f [VStr reason] c1
                in (fst r, if snd r = Throws then Raised Thrown else Done))
           | None \<Rightarrow> (c1, Done)))"

definition onerror :: "program \<Rightarrow> nat option \<Rightarrow> ZilaConnection \<Rightarrow> ZilaConnection \<times> completion" where
  "onerror prog errorCallback' c =
     (case errorCallback' of
        Some f \<Rightarrow>
          (let r = call_user prog f [] c
           in (fst r, if snd r = Throws then Raised Thrown else Done))
      | None \<Rightarrow> (c, Done))"

definition onmessage :: "program \<Rightarrow> (string \<Rightarrow> decoded) \<Rightarrow> string \<Rightarrow> ZilaConnection \<Rightarrow> ZilaConnection \<times> completion" where
  "onmessage prog JSON_parse data c = (fst (callEventHandler prog JSON_parse data c), Done)"

datatype ws_event = OpenEvent | CloseEvent string | ErrorEvent | MessageEvent string

fun deliver :: "program \<Rightarrow> (string \<Rightarrow> decoded) \<Rightarrow> nat option \<Rightarrow> ws_event \<Rightarrow> ZilaConnection \<Rightarrow> ZilaConnection \<times> completion" where
  "deliver prog JSON_parse ecb OpenEvent c = onopen prog c"
| "deliver prog JSON_parse ecb (CloseEvent reason) c = onclose prog reason c"
| "deliver prog JSON_parse ecb ErrorEvent c = onerror prog ecb c"
| "deliver prog JSON_parse ecb (MessageEvent data) c = onmessage prog JSON_parse data c"

text \<open>The connection after each event of a sequence the transport delivers, oldest first;
  an exception that leaves a handler goes to the transport and the connection stays as
  the handler left it.\<close>

fun run :: "program \<Rightarrow> (string \<Rightarrow> decoded) \<Rightarrow> nat option \<Rightarrow> ws_event list \<Rightarrow> ZilaConnection \<Rightarrow> ZilaConnection list" where
  "run prog JSON_parse ecb [] c = [c]"
| "run prog JSON_parse ecb (ev # evs) c =
     c # run prog JSON_parse ecb evs (fst (deliver prog JSON_parse ecb ev c))"

section \<open>Observations used in the statements\<close>

text \<open>Observations used in the statements: the callback inside a handler-table entry,
  what a call made by an application function does to the handler table, and whether such
  a call registers a handler under an identifier.\<close>

fun wrapped :: "handler \<Rightarrow> callback" where
  "wrapped (Direct cb) = cb"
| "wrapped (OnceWrapper identifier' cb) = cb"

fun table_cmd :: "cmd \<Rightarrow> (string \<rightharpoonup> handler) \<Rightarrow> (string \<rightharpoonup> handler)" where
  "table_cmd (CallSetMessageHandler i f) t = t(i \<mapsto> Direct (UserFn f))"
| "table_cmd (CallOnceMessageHandler i f) t = t(i \<mapsto> OnceWrapper i (UserFn f))"
| "table_cmd (CallRemoveMessageHandler i) t = t(i := None)"
| "table_cmd (CallRemoveEventListener e f) t = t"
| "table_cmd (CallSend i data) t = t"

fun registers :: "string \<Rightarrow> cmd \<Rightarrow> bool" where
  "registers i (CallSetMessageHandler j f) = (i = j)"
| "registers i (CallOnceMessageHandler j f) = (i = j)"
| "registers i x = False"

text \<open>The functions a sequence of plain listeners calls, in order, up to and including
  the first that throws; and whether a call made by an application function removes a
  listener of an event type.\<close>

fun called :: "program \<Rightarrow> jsval list \<Rightarrow> nat list \<Rightarrow> nat list" where
  "called prog args [] = []"
| "called prog args (f # fs) =
     f # (if snd (prog f args) = Throws then [] else called prog args fs)"

fun unregisters :: "event \<Rightarrow> cmd \<Rightarrow> bool" where
  "unregisters e (CallRemoveEventListener e' f) = (e = e')"
| "unregisters e x = False"

text \<open>
  What a call made by an application function writes to the transport, and the reply the
  continuation of lines 222-226 writes for a \<open>callbackId\<close> and the way the handler ended.
\<close>

fun sends :: "cmd \<Rightarrow> WSMessage list" where
  "sends (CallSend i data) = [getMessageJSON i (VArr data) None False]"
| "sends x = []"

fun reply :: "string option \<Rightarrow> outcome \<Rightarrow> WSMessage list" where
  "reply (Some cbid) (Returns val) =
     (if cbid \<noteq> [] then [getMessageJSON cbid (VArr [val]) None False] else [])"
| "reply cbid out = []"

text \<open>
  The status each transport event leaves, and the statuses along a sequence of events.
  \<open>ordered\<close>: no open event comes after a close event, as on a transport that delivers
  each lifecycle callback once, for the transition of its own that it reports.
  \<open>advance s t\<close>: \<open>t\<close> is \<open>s\<close> or a later stage of the life cycle \<open>OPENING\<close>,
  \<open>OPEN\<close>, then \<open>CLOSED\<close> or \<open>ERROR\<close>; after \<open>CLOSED\<close> and after \<open>ERROR\<close> comes
  nothing but the same status. \<open>lifecycle_path\<close>: every status of a sequence advances
  to every later one. \<open>open_after_terminal\<close>: somewhere in a sequence \<open>OPEN\<close> comes
  after \<open>CLOSED\<close> or \<open>ERROR\<close>.
  \<open>delivered\<close> are the calls made so far to the listeners of \<open>onStatusChange\<close>,
  oldest first: the arguments, and the status the accessor returned during the call;
  \<open>delivered_since c c'\<close> are those made between two states of a connection.
\<close>

fun status_after :: "ws_event \<Rightarrow> WSStatus \<Rightarrow> WSStatus" where
  "status_after OpenEvent s = OPEN"
| "status_after (CloseEvent reason) s = CLOSED"
| "status_after ErrorEvent s = s"
| "status_after (MessageEvent data) s = s"

fun statuses :: "WSStatus \<Rightarrow> ws_event list \<Rightarrow> WSStatus list" where
  "statuses s [] = [s]"
| "statuses s (ev # evs) = s # statuses (status_after ev s) evs"

fun ordered :: "ws_event list \<Rightarrow> bool" where
  "ordered [] = True"
| "ordered (CloseEvent reason # evs) = (OpenEvent \<notin> set evs \<and> ordered evs)"
| "ordered (ev # evs) = ordered evs"

fun advance :: "WSStatus \<Rightarrow> WSStatus \<Rightarrow> bool" where
  "advance OPENING t = True"
| "advance OPEN t = (t \<noteq> OPENING)"
| "advance CLOSED t = (t = CLOSED)"
| "advance ERROR t = (t = ERROR)"

fun lifecycle_path :: "WSStatus list \<Rightarrow> bool" where
  "lifecycle_path [] = True"
| "lifecycle_path (s # ss) = ((\<forall>t \<in> set ss. advance s t) \<and> lifecycle_path ss)"

fun open_after_terminal :: "WSStatus list \<Rightarrow> bool" where
  "open_after_terminal [] = False"
| "open_after_terminal (s # ss) =
     (((s = CLOSED \<or> s = ERROR) \<and> OPEN \<in> set ss) \<or> open_after_terminal ss)"

definition delivered :: "ZilaConnection \<Rightarrow> (jsval list \<times> WSStatus) list" where
  "delivered c = map snd (filter (\<lambda>x. fst x = OnStatusChange) (notified c))"

definition delivered_since :: "ZilaConnection \<Rightarrow> ZilaConnection \<Rightarrow> (jsval list \<times> WSStatus) list" where
  "delivered_since c c' = drop (length (delivered c)) (delivered c')"

section \<open>Sample inputs\<close>

text \<open>An application: its function number 6 throws, number 2 returns \<open>"hi!"\<close>,
  number 3 registers function 4 under \<open>ONCEMESSAGE\<close> and returns, every other one
  just returns. And what \<open>JSON.parse\<close> makes of a few texts.\<close>

definition sample_program :: program where
  "sample_program f args =
     (if f = 6 then ([], Throws)
      else if f = 2 then ([], Returns (VStr ''hi!''))
      else if f = 3 then ([CallSetMessageHandler ''ONCEMESSAGE'' 4], Returns VUndefined)
      else ([], Returns VUndefined))"

definition sample_parse :: "string \<Rightarrow> decoded" where
  "sample_parse text =
     (if text = ''{\"identifier\":\"echo\",\"message\":[\"hi\"],\"callbackId\":\"r1\"}''
      then Envelope \<lparr> identifier = ''echo'', message = VArr [VStr ''hi''], callbackId = Some ''r1'' \<rparr>
      else if text = ''{\"identifier\":\"echo\",\"message\":null,\"callbackId\":\"r1\"}''
      then Envelope \<lparr> identifier = ''echo'', message = VNull, callbackId = Some ''r1'' \<rparr>
      else if text = ''{\"identifier\":\"echo\",\"message\":[],\"callbackId\":null}''
      then Envelope \<lparr> identifier = ''echo'', message = VArr [], callbackId = None \<rparr>
      else if text = ''{\"identifier\":\"u1\",\"message\":[1,2],\"callbackId\":null}''
      then Envelope \<lparr> identifier = ''u1'', message = VArr [VNum 1, VNum 2], callbackId = None \<rparr>
      else if text = ''{\"identifier\":\"ONCEMESSAGE\",\"message\":[34.67],\"callbackId\":null}''
      then Envelope \<lparr> identifier = ''ONCEMESSAGE'', message = VArr [VNum 34.67], callbackId = None \<rparr>
      else if text = ''{\"identifier\":\"constructor\",\"message\":[34.67],\"callbackId\":null}''
      then Envelope \<lparr> identifier = ''constructor'', message = VArr [VNum 34.67], callbackId = None \<rparr>
      else if text = ''{\"identifier\":\"constructor\",\"message\":[],\"callbackId\":\"r1\"}''
      then Envelope \<lparr> identifier = ''constructor'', message = VArr [], callbackId = Some ''r1'' \<rparr>
      else if text = ''{\"identifier\":\"ONCEMESSAGE\",\"message\":[],\"callbackId\":\"r1\"}''
      then Envelope \<lparr> identifier = ''ONCEMESSAGE'', message = VArr [], callbackId = Some ''r1'' \<rparr>
      else if text = ''{\"message\":[]}'' then NoIdentifier
      else if text = ''null'' then NoIdentifier
      else Unparsable)"

text \<open>Connections with listeners of \<open>onStatusChange\<close>: one plain listener; a
  throwing listener followed by a plain one; two plain listeners; two \<open>onceCallback\<close>
  closures; the connection as \<open>connectTo\<close> leaves it (lines 138-145): the object
  the constructor built, with one listener added through \<open>onceEventListener\<close>; and
  that connection after the open event, with a listener the application has added.\<close>

definition connecting :: ZilaConnection where
  "connecting =
     (new_connection None False)
       \<lparr>localEventCallbacks := [OnStatusChange \<mapsto> [OnceCallback OnStatusChange 0 5]],
        closures := 1\<rparr>"

definition connected :: ZilaConnection where
  "connected =
     (new_connection None False)
       \<lparr>localEventCallbacks := [OnStatusChange \<mapsto> [Listener 2]],
        status := OPEN,
        invoked := [(UserFn 5, [VNum 1])],
        notified := [(OnStatusChange, [VNum 1], OPEN)],
        closures := 1\<rparr>"

definition one_listener :: ZilaConnection where
  "one_listener =
     (new_connection None False)\<lparr>localEventCallbacks := [OnStatusChange \<mapsto> [Listener 5]]\<rparr>"

definition two_listeners :: ZilaConnection where
  "two_listeners =
     (new_connection None False)\<lparr>localEventCallbacks := [OnStatusChange \<mapsto> [Listener 6, Listener 2]]\<rparr>"

definition two_plain_listeners :: ZilaConnection where
  "two_plain_listeners =
     (new_connection None False)\<lparr>localEventCallbacks := [OnStatusChange \<mapsto> [Listener 2, Listener 5]]\<rparr>"

definition two_once_listeners :: ZilaConnection where
  "two_once_listeners =
     (new_connection None False)
       \<lparr>localEventCallbacks :=
          [OnStatusChange \<mapsto> [OnceCallback OnStatusChange 0 5, OnceCallback OnStatusChange 1 4]],
        closures := 2\<rparr>"

section \<open>What the callbacks leave alone\<close>

lemma status_run_cmd: "status (run_cmd x c) = status c"
  by (cases x)
     (simp_all add: setMessageHandler_def onceMessageHandler_def removeMessageHandler_def
        removeEventListener_def send_def connection_send_def Let_def split: option.splits)

lemma invoked_run_cmd: "invoked (run_cmd x c) = invoked c"
  by (cases x)
     (simp_all add: setMessageHandler_def onceMessageHandler_def removeMessageHandler_def
        removeEventListener_def send_def connection_send_def Let_def split: option.splits)

lemma status_fold_run_cmd: "status (fold run_cmd xs c) = status c"
  by (induction xs arbitrary: c) (simp_all add: status_run_cmd)

lemma invoked_fold_run_cmd: "invoked (fold run_cmd xs c) = invoked c"
  by (induction xs arbitrary: c) (simp_all add: invoked_run_cmd)

lemma status_call_user: "status (fst (call_user prog f args c)) = status c"
  by (simp add: call_user_def status_fold_run_cmd)

lemma invoked_call_user:
  "invoked (fst (call_user prog f args c)) = invoked c @ [(UserFn f, args)]"
  by (simp add: call_user_def invoked_fold_run_cmd)

lemma status_removeEventListener: "status (removeEventListener e cb c) = status c"
  by (simp add: removeEventListener_def Let_def split: option.splits)

lemma invoked_removeEventListener: "invoked (removeEventListener e cb c) = invoked c"
  by (simp add: removeEventListener_def Let_def split: option.splits)

lemma status_call_listener: "status (fst (call_listener prog l args c)) = status c"
  by (cases l) (simp_all add: status_call_user status_removeEventListener)

lemma status_notice: "status (notice e args c) = status c"
  by (simp add: notice_def)

lemma invoked_notice: "invoked (notice e args c) = invoked c"
  by (simp add: notice_def)

lemma for_of_stop: "\<not> i < length (registered c e) \<Longrightarrow> for_of prog e args i c = (c, Done)"
  by (subst for_of.simps) simp

lemma for_of_step: "i < length (registered c e) \<Longrightarrow>
    for_of prog e args i c =
      (let r = call_listener prog (registered c e ! i) args (notice e args c)
       in if snd r = Throws then (fst r, Raised Thrown)
          else for_of prog e args (Suc i) (fst r))"
  by (subst for_of.simps) simp

lemma for_of_empty: "registered c e = [] \<Longrightarrow> for_of prog e args i c = (c, Done)"
  by (simp add: for_of_stop)

lemma notify_empty: "registered c e = [] \<Longrightarrow> notify prog e args c = (c, Done)"
  by (simp add: notify_def for_of_empty split: option.splits)

lemma status_for_of: "status (fst (for_of prog e args i c)) = status c"
proof (induction prog e args i c rule: for_of.induct)
  case (1 prog e args i c)
  show ?case
  proof (cases "i < length (registered c e)")
    case False
    then show ?thesis by (simp add: for_of_stop)
  next
    case True
    let ?r = "call_listener prog (registered c e ! i) args (notice e args c)"
    show ?thesis
    proof (cases "snd ?r = Throws")
      case t: True
      with True show ?thesis
        by (simp add: for_of_step Let_def status_call_listener status_notice)
    next
      case f: False
      have "status (fst (for_of prog e args (Suc i) (fst ?r))) = status (fst ?r)"
        using "1.IH" [OF True refl f] .
      with True f show ?thesis
        by (simp add: for_of_step Let_def status_call_listener status_notice)
    qed
  qed
qed

lemma status_notify: "status (fst (notify prog e args c)) = status c"
  by (simp add: notify_def status_for_of split: option.splits)

text \<open>Without listeners for the two message events, \<open>callEventHandler\<close> is the decoding
  followed by the control branch or the handler lookup.\<close>

lemma callEventHandler_quiet:
  "registered c OnRawMessageRecieved = [] \<Longrightarrow> registered c OnMessageRecieved = [] \<Longrightarrow>
   callEventHandler prog JSON_parse msg c =
     (case JSON_parse msg of
        Unparsable \<Rightarrow> (c, Raised SyntaxError)
      | NoIdentifier \<Rightarrow> (c, Raised TypeError)
      | Envelope msgObj \<Rightarrow>
          if take 1 (identifier msgObj) = ''@'' then control prog msgObj c
          else dispatch prog msgObj c)"
  by (simp add: callEventHandler_def notify_def for_of_empty split: option.splits decoded.splits)

lemma callEventHandler_dispatch:
  assumes "notify prog OnRawMessageRecieved [VStr msg] c = (c1, Done)"
    and "JSON_parse msg = Envelope m"
    and "take 1 (identifier m) \<noteq> ''@''"
    and "notify prog OnMessageRecieved [message m] c1 = (c2, Done)"
  shows "callEventHandler prog JSON_parse msg c = dispatch prog m c2"
  using assms by (simp add: callEventHandler_def)

lemma invoked_resolve: "invoked (resolve p v c) = invoked c"
  by (simp add: resolve_def)

lemma invoked_call_callback:
  "invoked (fst (call_callback prog cb args c)) = invoked c @ [(cb, args)]"
  by (cases cb) (simp_all add: invoked_call_user invoked_resolve)

lemma lookup_own: "callbacks c i = Some h \<Longrightarrow> lookup c i = Some h"
  by (simp add: lookup_def)

lemma lookup_none:
  "callbacks c i = None \<Longrightarrow> i \<notin> set object_prototype_members \<Longrightarrow> lookup c i = None"
  by (simp add: lookup_def)

lemma invoked_removeMessageHandler: "invoked (removeMessageHandler i c) = invoked c"
  by (simp add: removeMessageHandler_def)

lemma invoked_call_handler:
  "invoked (fst (call_handler prog h args c)) = invoked c @ [(wrapped h, args)]"
  by (cases h) (simp_all add: invoked_call_callback invoked_removeMessageHandler Let_def)

lemma invoked_send: "invoked (send i data c) = invoked c"
  by (simp add: send_def connection_send_def)

lemma invoked_dispatch:
  assumes "callbacks c (identifier m) = Some h" and "truthy (message m)"
    and "spread (message m) = Some args"
  shows "invoked (fst (dispatch prog m c)) = invoked c @ [(wrapped h, args)]"
proof -
  obtain c' out where r: "call_handler prog h args c = (c', out)"
    by (cases "call_handler prog h args c")
  have "invoked c' = invoked c @ [(wrapped h, args)]"
    using invoked_call_handler [of prog h args c] r by simp
  with assms r show ?thesis
    by (cases out) (simp_all add: dispatch_def lookup_own invoked_send split: option.splits)
qed

lemma callbacks_run_cmd: "callbacks (run_cmd x c) = table_cmd x (callbacks c)"
  by (cases x)
     (simp_all add: setMessageHandler_def onceMessageHandler_def removeMessageHandler_def
        removeEventListener_def send_def connection_send_def Let_def split: option.splits)

lemma callbacks_fold_run_cmd: "callbacks (fold run_cmd xs c) = fold table_cmd xs (callbacks c)"
  by (induction xs arbitrary: c) (simp_all add: callbacks_run_cmd)

lemma callbacks_call_user:
  "callbacks (fst (call_user prog f args c)) = fold table_cmd (fst (prog f args)) (callbacks c)"
  by (simp add: call_user_def callbacks_fold_run_cmd)

lemma fold_table_cmd_untouched:
  "\<forall>x \<in> set xs. \<not> registers i x \<Longrightarrow> t i = None \<Longrightarrow> fold table_cmd xs t i = None"
proof (induction xs arbitrary: t)
  case Nil
  then show ?case by simp
next
  case (Cons x xs)
  from Cons.prems have "table_cmd x t i = None" by (cases x) auto
  with Cons show ?case by simp
qed

lemma callbacks_send: "callbacks (send i data c) = callbacks c"
  by (simp add: send_def connection_send_def)

lemma registered_send: "registered (send i data c) e = registered c e"
  by (simp add: send_def connection_send_def registered_def)

lemma registered_removeMessageHandler: "registered (removeMessageHandler i c) e = registered c e"
  by (simp add: removeMessageHandler_def registered_def)

lemma registered_onceMessageHandler: "registered (onceMessageHandler i cb c) e = registered c e"
  by (simp add: onceMessageHandler_def registered_def)

lemma registered_setMessageHandler: "registered (setMessageHandler i cb c) e = registered c e"
  by (simp add: setMessageHandler_def registered_def)

lemma registered_call_callback:
  "length (registered (fst (call_callback prog cb args c)) e) \<le> length (registered c e)"
proof (cases cb)
  case (UserFn f)
  then show ?thesis by (simp add: registered_call_user)
next
  case (Resolver p)
  then show ?thesis by (simp add: resolve_def registered_def)
next
  case (Member member)
  then show ?thesis by (simp add: registered_def)
qed

lemma registered_call_handler:
  "length (registered (fst (call_handler prog h args c)) e) \<le> length (registered c e)"
proof (cases h)
  case (Direct cb)
  then show ?thesis by (simp add: registered_call_callback)
next
  case (OnceWrapper i cb)
  have "length (registered (fst (call_callback prog cb args (removeMessageHandler i c))) e)
          \<le> length (registered (removeMessageHandler i c) e)"
    by (rule registered_call_callback)
  with OnceWrapper show ?thesis by (simp add: Let_def registered_removeMessageHandler)
qed

lemma registered_dispatch:
  "length (registered (fst (dispatch prog m c)) e) \<le> length (registered c e)"
proof (cases "lookup c (identifier m)")
  case None
  then show ?thesis by (simp add: dispatch_def)
next
  case (Some h)
  show ?thesis
  proof (cases "truthy (message m)")
    case False
    with Some show ?thesis by (simp add: dispatch_def)
  next
    case True
    show ?thesis
    proof (cases "spread (message m)")
      case None
      with Some True show ?thesis by (simp add: dispatch_def)
    next
      case (Some args)
      obtain c' out where r: "call_handler prog h args c = (c', out)"
        by (cases "call_handler prog h args c")
      have "length (registered c' e) \<le> length (registered c e)"
        using registered_call_handler [of prog h args c e] r by simp
      with \<open>lookup c (identifier m) = Some h\<close> True Some r show ?thesis
        by (cases out) (simp_all add: dispatch_def registered_send split: option.splits)
    qed
  qed
qed

lemma dispatch_once_user:
  assumes "callbacks c (identifier m) = Some (OnceWrapper i (UserFn f))"
    and "truthy (message m)" and "spread (message m) = Some args"
  shows "callbacks (fst (dispatch prog m c)) =
           fold table_cmd (fst (prog f args)) ((callbacks c)(i := None))"
proof -
  let ?c1 = "removeMessageHandler i c"
  obtain c' out where r: "call_user prog f args ?c1 = (c', out)"
    by (cases "call_user prog f args ?c1")
  have "callbacks c' = fold table_cmd (fst (prog f args)) (callbacks ?c1)"
    using callbacks_call_user [of prog f args ?c1] r by simp
  then have cb: "callbacks c' = fold table_cmd (fst (prog f args)) ((callbacks c)(i := None))"
    by (simp add: removeMessageHandler_def)
  from assms r cb show ?thesis
    by (cases out) (simp_all add: dispatch_def lookup_own Let_def callbacks_send split: option.splits)
qed

lemma settled_send: "settled (send i data c) = settled c"
  by (simp add: send_def connection_send_def)

lemma dispatch_once_resolver:
  assumes "callbacks c (identifier m) = Some (OnceWrapper i (Resolver p))"
    and "truthy (message m)" and "spread (message m) = Some args"
  shows "settled (fst (dispatch prog m c)) = settled (resolve p (first_arg args) c) \<and>
         callbacks (fst (dispatch prog m c)) = (callbacks c)(i := None)"
  using assms
  by (auto simp: dispatch_def lookup_own Let_def settled_send callbacks_send resolve_def
      removeMessageHandler_def split: option.splits)

lemma registered_run_cmd_stable:
  "\<not> unregisters e x \<Longrightarrow> registered (run_cmd x c) e = registered c e"
  by (cases x)
     (simp_all add: registered_removeEventListener registered_setMessageHandler
        registered_onceMessageHandler registered_removeMessageHandler registered_send)

lemma registered_fold_run_cmd_stable:
  "\<forall>x \<in> set xs. \<not> unregisters e x \<Longrightarrow> registered (fold run_cmd xs c) e = registered c e"
  by (induction xs arbitrary: c) (simp_all add: registered_run_cmd_stable)

lemma registered_call_user_stable:
  "\<forall>x \<in> set (fst (prog f args)). \<not> unregisters e x \<Longrightarrow>
     registered (fst (call_user prog f args c)) e = registered c e"
  by (simp add: call_user_def registered_fold_run_cmd_stable) (simp add: registered_def)

lemma snd_call_user: "snd (call_user prog f args c) = snd (prog f args)"
  by (simp add: call_user_def)

lemma for_of_calls:
  assumes "registered c e = map Listener fs"
    and "\<forall>f \<in> set fs. \<forall>x \<in> set (fst (prog f args)). \<not> unregisters e x"
  shows "invoked (fst (for_of prog e args i c)) =
           invoked c @ map (\<lambda>f. (UserFn f, args)) (called prog args (drop i fs)) \<and>
         snd (for_of prog e args i c) =
           (if \<exists>f \<in> set (drop i fs). snd (prog f args) = Throws then Raised Thrown else Done)"
  using assms
proof (induction prog e args i c rule: for_of.induct)
  case (1 prog e args i c)
  show ?case
  proof (cases "i < length fs")
    case False
    with "1.prems" show ?thesis by (simp add: for_of_stop)
  next
    case True
    then have lt: "i < length (registered c e)" using "1.prems" by simp
    have l: "registered c e ! i = Listener (fs ! i)" using True "1.prems" by simp
    have mem: "fs ! i \<in> set fs" using True by simp
    let ?n = "notice e args c"
    let ?r = "call_listener prog (registered c e ! i) args ?n"
    have r: "?r = call_user prog (fs ! i) args ?n" by (simp add: l)
    have "registered (fst (call_user prog (fs ! i) args ?n)) e = registered ?n e"
      by (rule registered_call_user_stable) (use "1.prems" mem in blast)
    then have st: "registered (fst ?r) e = map Listener fs"
      unfolding r using "1.prems"(1) by (simp add: registered_notice)
    have inv: "invoked (fst ?r) = invoked c @ [(UserFn (fs ! i), args)]"
      by (simp add: r invoked_call_user invoked_notice)
    have out: "snd ?r = snd (prog (fs ! i) args)" by (simp add: r snd_call_user)
    have dr: "drop i fs = fs ! i # drop (Suc i) fs"
      using True by (simp add: Cons_nth_drop_Suc)
    show ?thesis
    proof (cases "snd (prog (fs ! i) args) = Throws")
      case t: True
      have "for_of prog e args i c = (fst ?r, Raised Thrown)"
        using lt t out by (simp add: for_of_step Let_def)
      with t inv show ?thesis by (simp add: dr)
    next
      case f: False
      have ih: "invoked (fst (for_of prog e args (Suc i) (fst ?r))) =
           invoked (fst ?r) @ map (\<lambda>f. (UserFn f, args)) (called prog args (drop (Suc i) fs)) \<and>
         snd (for_of prog e args (Suc i) (fst ?r)) =
           (if \<exists>f \<in> set (drop (Suc i) fs). snd (prog f args) = Throws then Raised Thrown else Done)"
        using "1.IH" [OF lt refl] st "1.prems"(2) f out by simp
      have "for_of prog e args i c = for_of prog e args (Suc i) (fst ?r)"
        using lt f out by (simp add: for_of_step Let_def)
      with ih inv f show ?thesis by (simp add: dr)
    qed
  qed
qed

lemma called_all: "\<forall>f \<in> set fs. snd (prog f args) \<noteq> Throws \<Longrightarrow> called prog args fs = fs"
  by (induction fs) simp_all

lemma status_send: "status (send i data c) = status c"
  by (simp add: send_def connection_send_def)

lemma status_call_callback: "status (fst (call_callback prog cb args c)) = status c"
  by (cases cb) (simp_all add: status_call_user resolve_def)

lemma status_call_handler: "status (fst (call_handler prog h args c)) = status c"
  by (cases h) (simp_all add: status_call_callback Let_def removeMessageHandler_def)

lemma status_dispatch: "status (fst (dispatch prog m c)) = status c"
proof (cases "lookup c (identifier m)")
  case None
  then show ?thesis by (simp add: dispatch_def)
next
  case (Some h)
  show ?thesis
  proof (cases "spread (message m)")
    case None
    with Some show ?thesis by (simp add: dispatch_def)
  next
    case args: (Some args)
    obtain c' out where r: "call_handler prog h args c = (c', out)"
      by (cases "call_handler prog h args c")
    have "status c' = status c" using status_call_handler [of prog h args c] r by simp
    with Some args r show ?thesis
      by (cases out) (simp_all add: dispatch_def status_send split: option.splits)
  qed
qed

lemma status_control: "status (fst (control prog m c)) = status c"
  by (simp add: control_def status_notify)

lemma status_callEventHandler: "status (fst (callEventHandler prog JSON_parse msg c)) = status c"
proof -
  obtain c1 r where n: "notify prog OnRawMessageRecieved [VStr msg] c = (c1, r)"
    by (cases "notify prog OnRawMessageRecieved [VStr msg] c")
  have s1: "status c1 = status c"
    using status_notify [of prog OnRawMessageRecieved "[VStr msg]" c] n by simp
  show ?thesis
  proof (cases r)
    case (Raised e)
    with n s1 show ?thesis by (simp add: callEventHandler_def)
  next
    case Done
    show ?thesis
    proof (cases "JSON_parse msg")
      case (Envelope m)
      obtain c2 r2 where n2: "notify prog OnMessageRecieved [message m] c1 = (c2, r2)"
        by (cases "notify prog OnMessageRecieved [message m] c1")
      have s2: "status c2 = status c1"
        using status_notify [of prog OnMessageRecieved "[message m]" c1] n2 by simp
      from n Done Envelope n2 s1 s2 show ?thesis
        by (cases r2) (simp_all add: callEventHandler_def status_control status_dispatch)
    qed (use n Done s1 in \<open>simp_all add: callEventHandler_def\<close>)
  qed
qed

lemma status_set_status: "status (fst (set_status prog v c)) = v"
  by (simp add: set_status_def Let_def status_for_of split: option.splits)

lemma status_deliver:
  "status (fst (deliver prog JSON_parse ecb ev c)) = status_after ev (status c)"
proof (cases ev)
  case OpenEvent
  then show ?thesis by (simp add: onopen_def status_set_status)
next
  case (CloseEvent reason)
  obtain c1 r where s: "set_status prog CLOSED c = (c1, r)"
    by (cases "set_status prog CLOSED c")
  have "status c1 = CLOSED" using status_set_status [of prog CLOSED c] s by simp
  with CloseEvent s show ?thesis
    by (cases r) (simp_all add: onclose_def Let_def status_call_user split: option.splits)
next
  case ErrorEvent
  then show ?thesis by (simp add: onerror_def Let_def status_call_user split: option.splits)
next
  case (MessageEvent data)
  then show ?thesis by (simp add: onmessage_def status_callEventHandler)
qed

lemma run_statuses:
  "map status (run prog JSON_parse ecb evs c) = statuses (status c) evs"
  by (induction evs arbitrary: c) (simp_all add: status_deliver)

text \<open>What the calls leave in \<open>sent\<close>, and the reply to an envelope that a one-shot
  wrapper answers.\<close>

lemma sent_run_cmd: "sent (run_cmd x c) = sent c @ sends x"
  by (cases x)
     (simp_all add: setMessageHandler_def onceMessageHandler_def removeMessageHandler_def
        removeEventListener_def send_def connection_send_def Let_def split: option.splits)

lemma sent_fold_run_cmd: "sent (fold run_cmd xs c) = sent c @ concat (map sends xs)"
  by (induction xs arbitrary: c) (simp_all add: sent_run_cmd)

lemma sent_call_user:
  "sent (fst (call_user prog f args c)) = sent c @ concat (map sends (fst (prog f args)))"
  by (simp add: call_user_def sent_fold_run_cmd)

lemma dispatch_once_sent:
  assumes "callbacks c (identifier m) = Some (OnceWrapper i (UserFn f))"
    and "truthy (message m)" and "spread (message m) = Some args"
  shows "sent (fst (dispatch prog m c)) =
           sent c @ concat (map sends (fst (prog f args))) @
           reply (callbackId m) (snd (prog f args))"
proof -
  let ?c1 = "removeMessageHandler i c"
  obtain c' out where r: "call_user prog f args ?c1 = (c', out)"
    by (cases "call_user prog f args ?c1")
  have out: "out = snd (prog f args)" using snd_call_user [of prog f args ?c1] r by simp
  have "sent c' = sent ?c1 @ concat (map sends (fst (prog f args)))"
    using sent_call_user [of prog f args ?c1] r by simp
  then have s: "sent c' = sent c @ concat (map sends (fst (prog f args)))"
    by (simp add: removeMessageHandler_def)
  show ?thesis
  proof (cases "snd (prog f args)")
    case (Returns val)
    with assms r s out show ?thesis
      by (cases "callbackId m")
         (simp_all add: dispatch_def lookup_own Let_def send_def connection_send_def)
  next
    case Throws
    with assms r s out show ?thesis by (simp add: dispatch_def lookup_own Let_def)
  next
    case Rejects
    with assms r s out show ?thesis by (simp add: dispatch_def lookup_own Let_def)
  qed
qed

text \<open>The notification log: only the loops write it, each with its own event type, its
  arguments and the status of the moment, and nothing between two status changes touches
  the entries of \<open>onStatusChange\<close>.\<close>

lemma notified_run_cmd: "notified (run_cmd x c) = notified c"
  by (cases x)
     (simp_all add: setMessageHandler_def onceMessageHandler_def removeMessageHandler_def
        removeEventListener_def send_def connection_send_def Let_def split: option.splits)

lemma notified_fold_run_cmd: "notified (fold run_cmd xs c) = notified c"
  by (induction xs arbitrary: c) (simp_all add: notified_run_cmd)

lemma notified_call_user: "notified (fst (call_user prog f args c)) = notified c"
  by (simp add: call_user_def notified_fold_run_cmd)

lemma notified_removeEventListener: "notified (removeEventListener e cb c) = notified c"
  by (simp add: removeEventListener_def Let_def split: option.splits)

lemma notified_call_listener: "notified (fst (call_listener prog l args c)) = notified c"
  by (cases l) (simp_all add: notified_call_user notified_removeEventListener)

lemma for_of_notified:
  "\<exists>k. notified (fst (for_of prog e args i c)) = notified c @ replicate k (e, args, status c)"
proof (induction prog e args i c rule: for_of.induct)
  case (1 prog e args i c)
  show ?case
  proof (cases "i < length (registered c e)")
    case False
    then have "notified (fst (for_of prog e args i c)) = notified c @ replicate 0 (e, args, status c)"
      by (simp add: for_of_stop)
    then show ?thesis by blast
  next
    case True
    let ?r = "call_listener prog (registered c e ! i) args (notice e args c)"
    have n: "notified (fst ?r) = notified c @ [(e, args, status c)]"
      by (simp add: notified_call_listener) (simp add: notice_def)
    have st: "status (fst ?r) = status c"
      by (simp add: status_call_listener status_notice)
    show ?thesis
    proof (cases "snd ?r = Throws")
      case t: True
      with True have "for_of prog e args i c = (fst ?r, Raised Thrown)"
        by (simp add: for_of_step Let_def)
      with n have "notified (fst (for_of prog e args i c)) =
          notified c @ replicate 1 (e, args, status c)" by simp
      then show ?thesis by blast
    next
      case f: False
      obtain k where k: "notified (fst (for_of prog e args (Suc i) (fst ?r))) =
          notified (fst ?r) @ replicate k (e, args, status (fst ?r))"
        using "1.IH" [OF True refl f] by blast
      have "for_of prog e args i c = for_of prog e args (Suc i) (fst ?r)"
        using True f by (simp add: for_of_step Let_def)
      with k n st have "notified (fst (for_of prog e args i c)) =
          notified c @ replicate (Suc k) (e, args, status c)" by simp
      then show ?thesis by blast
    qed
  qed
qed

lemma notify_notified:
  "\<exists>k. notified (fst (notify prog e args c)) = notified c @ replicate k (e, args, status c)"
proof (cases "localEventCallbacks c e")
  case None
  then have "notified (fst (notify prog e args c)) = notified c @ replicate 0 (e, args, status c)"
    by (simp add: notify_def)
  then show ?thesis by blast
next
  case (Some array)
  then show ?thesis using for_of_notified [of prog e args 0 c] by (simp add: notify_def)
qed

lemma delivered_append_other:
  "e \<noteq> OnStatusChange \<Longrightarrow> notified c' = notified c @ replicate k (e, args, s) \<Longrightarrow>
   delivered c' = delivered c"
  by (simp add: delivered_def)

lemma delivered_append_status:
  "notified c' = notified c @ replicate k (OnStatusChange, args, s) \<Longrightarrow>
   delivered c' = delivered c @ replicate k (args, s)"
  by (simp add: delivered_def)

lemma delivered_notify:
  "e \<noteq> OnStatusChange \<Longrightarrow> delivered (fst (notify prog e args c)) = delivered c"
  using notify_notified [of prog e args c] delivered_append_other by blast

lemma notified_call_callback: "notified (fst (call_callback prog cb args c)) = notified c"
  by (cases cb) (simp_all add: notified_call_user resolve_def)

lemma notified_call_handler: "notified (fst (call_handler prog h args c)) = notified c"
  by (cases h) (simp_all add: notified_call_callback Let_def removeMessageHandler_def)

lemma notified_send: "notified (send i data c) = notified c"
  by (simp add: send_def connection_send_def)

lemma notified_dispatch: "notified (fst (dispatch prog m c)) = notified c"
proof (cases "lookup c (identifier m)")
  case None
  then show ?thesis by (simp add: dispatch_def)
next
  case (Some h)
  show ?thesis
  proof (cases "spread (message m)")
    case None
    with Some show ?thesis by (simp add: dispatch_def)
  next
    case args: (Some args)
    obtain c' out where r: "call_handler prog h args c = (c', out)"
      by (cases "call_handler prog h args c")
    have "notified c' = notified c" using notified_call_handler [of prog h args c] r by simp
    with Some args r show ?thesis
      by (cases out) (simp_all add: dispatch_def notified_send split: option.splits)
  qed
qed

lemma delivered_dispatch: "delivered (fst (dispatch prog m c)) = delivered c"
  by (simp add: delivered_def notified_dispatch)

lemma delivered_call_user: "delivered (fst (call_user prog f args c)) = delivered c"
  by (simp add: delivered_def notified_call_user)

lemma delivered_control: "delivered (fst (control prog m c)) = delivered c"
  by (simp add: control_def delivered_notify) (simp add: delivered_def)

lemma delivered_callEventHandler:
  "delivered (fst (callEventHandler prog JSON_parse msg c)) = delivered c"
proof -
  obtain c1 r where n: "notify prog OnRawMessageRecieved [VStr msg] c = (c1, r)"
    by (cases "notify prog OnRawMessageRecieved [VStr msg] c")
  have s1: "delivered c1 = delivered c"
    using delivered_notify [of OnRawMessageRecieved prog "[VStr msg]" c] n by simp
  show ?thesis
  proof (cases r)
    case (Raised e)
    with n s1 show ?thesis by (simp add: callEventHandler_def)
  next
    case Done
    show ?thesis
    proof (cases "JSON_parse msg")
      case (Envelope m)
      obtain c2 r2 where n2: "notify prog OnMessageRecieved [message m] c1 = (c2, r2)"
        by (cases "notify prog OnMessageRecieved [message m] c1")
      have s2: "delivered c2 = delivered c1"
        using delivered_notify [of OnMessageRecieved prog "[message m]" c1] n2 by simp
      from n Done Envelope n2 s1 s2 show ?thesis
        by (cases r2) (simp_all add: callEventHandler_def delivered_control delivered_dispatch)
    qed (use n Done s1 in \<open>simp_all add: callEventHandler_def\<close>)
  qed
qed

lemma delivered_set_status:
  "\<exists>k. delivered (fst (set_status prog v c)) = delivered c @ replicate k ([status_val v], v)"
proof -
  let ?c1 = "c\<lparr>status := v\<rparr>"
  obtain k where "notified (fst (for_of prog OnStatusChange [status_val v] 0 ?c1)) =
      notified ?c1 @ replicate k (OnStatusChange, [status_val v], status ?c1)"
    using for_of_notified by blast
  then have a: "delivered (fst (for_of prog OnStatusChange [status_val v] 0 ?c1)) =
      delivered c @ replicate k ([status_val v], v)"
    by (simp add: delivered_def)
  have b: "delivered ?c1 = delivered c @ replicate 0 ([status_val v], v)"
    by (simp add: delivered_def)
  have "fst (set_status prog v c) = fst (for_of prog OnStatusChange [status_val v] 0 ?c1) \<or>
        fst (set_status prog v c) = ?c1"
    by (simp add: set_status_def Let_def split: option.splits)
  with a b show ?thesis by metis
qed

lemma delivered_deliver:
  "\<exists>k. delivered (fst (deliver prog JSON_parse ecb ev c)) =
        delivered c @ replicate k ([status_val (status_after ev (status c))],
                                   status_after ev (status c))"
proof (cases ev)
  case OpenEvent
  then show ?thesis using delivered_set_status [of prog OPEN c] by (simp add: onopen_def)
next
  case (CloseEvent reason)
  obtain k where k: "delivered (fst (set_status prog CLOSED c)) =
      delivered c @ replicate k ([status_val CLOSED], CLOSED)"
    using delivered_set_status by blast
  obtain c1 r where s: "set_status prog CLOSED c = (c1, r)"
    by (cases "set_status prog CLOSED c")
  have "delivered (fst (onclose prog reason c)) = delivered c1"
    using s by (cases r) (simp_all add: onclose_def Let_def delivered_call_user split: option.splits)
  with k s CloseEvent show ?thesis by auto
next
  case ErrorEvent
  have "delivered (fst (onerror prog ecb c)) = delivered c @ replicate 0 ([status_val (status c)], status c)"
    by (simp add: onerror_def Let_def delivered_call_user split: option.splits)
  with ErrorEvent show ?thesis by (metis deliver.simps(3) status_after.simps(3))
next
  case (MessageEvent data)
  have "delivered (fst (onmessage prog JSON_parse data c)) =
      delivered c @ replicate 0 ([status_val (status c)], status c)"
    by (simp add: onmessage_def delivered_callEventHandler)
  with MessageEvent show ?thesis by (metis deliver.simps(4) status_after.simps(4))
qed

lemma advance_refl: "advance s s"
  by (cases s) simp_all

lemma advance_trans: "advance s t \<Longrightarrow> advance t u \<Longrightarrow> advance s u"
  by (cases s; cases t; cases u) simp_all

lemma lifecycle_path_append:
  "lifecycle_path (xs @ ys) \<longleftrightarrow>
     lifecycle_path xs \<and> lifecycle_path ys \<and> (\<forall>s \<in> set xs. \<forall>t \<in> set ys. advance s t)"
  by (induction xs) auto

lemma lifecycle_path_replicate: "lifecycle_path (replicate k s)"
  by (induction k) (simp_all add: advance_refl)

lemma lifecycle_path_terminal: "lifecycle_path xs \<Longrightarrow> \<not> open_after_terminal xs"
  by (induction xs) auto

lemma statuses_lifecycle:
  "ordered evs \<Longrightarrow> (s = CLOSED \<longrightarrow> OpenEvent \<notin> set evs) \<Longrightarrow> s \<noteq> ERROR \<Longrightarrow>
     lifecycle_path (statuses s evs) \<and> (\<forall>t \<in> set (statuses s evs). advance s t)"
proof (induction evs arbitrary: s)
  case Nil
  then show ?case by (simp add: advance_refl)
next
  case (Cons ev evs)
  let ?s' = "status_after ev s"
  have o: "ordered evs" using Cons.prems(1) by (cases ev) simp_all
  have c: "?s' = CLOSED \<longrightarrow> OpenEvent \<notin> set evs"
    using Cons.prems(1,2) by (cases ev) auto
  have e: "?s' \<noteq> ERROR" using Cons.prems(3) by (cases ev) simp_all
  have ih: "lifecycle_path (statuses ?s' evs)" "\<forall>t \<in> set (statuses ?s' evs). advance ?s' t"
    using Cons.IH [OF o c e] by simp_all
  have st: "advance s ?s'"
    using Cons.prems(2,3) by (cases ev; cases s) simp_all
  have all: "\<forall>t \<in> set (statuses ?s' evs). advance s t"
    using ih(2) st advance_trans by blast
  with ih show ?case by (simp add: advance_refl)
qed

lemma run_nonempty: "run prog JSON_parse ecb evs c \<noteq> []"
  by (cases evs) simp_all

lemma run_delivered:
  "ordered evs \<Longrightarrow> (status c = CLOSED \<longrightarrow> OpenEvent \<notin> set evs) \<Longrightarrow> status c \<noteq> ERROR \<Longrightarrow>
   \<exists>zs. delivered (last (run prog JSON_parse ecb evs c)) = delivered c @ zs \<and>
        (\<forall>x \<in> set zs. fst x = [status_val (snd x)] \<and> advance (status c) (snd x)) \<and>
        lifecycle_path (map snd zs)"
proof (induction evs arbitrary: c)
  case Nil
  then show ?case by simp
next
  case (Cons ev evs)
  let ?c' = "fst (deliver prog JSON_parse ecb ev c)"
  let ?s' = "status_after ev (status c)"
  have s': "status ?c' = ?s'" by (rule status_deliver)
  have o: "ordered evs" using Cons.prems(1) by (cases ev) simp_all
  have c: "status ?c' = CLOSED \<longrightarrow> OpenEvent \<notin> set evs"
    unfolding s' using Cons.prems(1,2) by (cases ev) auto
  have e: "status ?c' \<noteq> ERROR" unfolding s' using Cons.prems(3) by (cases ev) simp_all
  have st: "advance (status c) ?s'"
    using Cons.prems(2,3) by (cases ev; cases "status c") simp_all
  obtain k where k: "delivered ?c' = delivered c @ replicate k ([status_val ?s'], ?s')"
    using delivered_deliver by blast
  obtain zs where zs: "delivered (last (run prog JSON_parse ecb evs ?c')) = delivered ?c' @ zs"
    "\<forall>x \<in> set zs. fst x = [status_val (snd x)] \<and> advance ?s' (snd x)"
    "lifecycle_path (map snd zs)"
    using Cons.IH [OF o c e] unfolding s' by blast
  let ?ys = "replicate k ([status_val ?s'], ?s')"
  have a: "delivered (last (run prog JSON_parse ecb (ev # evs) c)) = delivered c @ (?ys @ zs)"
    using zs(1) k by (simp add: run_nonempty)
  have b: "\<forall>x \<in> set (?ys @ zs). fst x = [status_val (snd x)] \<and> advance (status c) (snd x)"
    using zs(2) st advance_trans by auto
  have "lifecycle_path (replicate k ?s' @ map snd zs)"
    unfolding lifecycle_path_append using zs(2,3) by (auto simp: lifecycle_path_replicate)
  then have d: "lifecycle_path (map snd (?ys @ zs))" by simp
  from a b d show ?case by blast
qed

lemma connectTo_registers:
  "onceEventListener OnStatusChange 5 (new_connection None False) = Inr connecting"
  by (simp add: onceEventListener_def addEventListener_def connecting_def new_connection_def)

section \<open>Adding and removing listeners\<close>

text \<open>
  C8. \<open>addEventListener\<close> raises (the error "listener already has this callback added to
  it") exactly when the very same callback is already in the sequence of that event type;
  otherwise it appends the callback at the end of that sequence and touches nothing else.
  In a registry without repetitions (every registry built by \<open>addEventListener\<close> is one),
  one \<open>removeEventListener\<close> of a callback makes adding it again succeed.
\<close>

theorem addEventListener_duplicate_iff:
  "(addEventListener e cb c = Inl (ListenerAlreadyAdded e) \<longleftrightarrow> cb \<in> set (registered c e)) \<and>
   (cb \<notin> set (registered c e) \<longrightarrow>
      addEventListener e cb c =
        Inr (c\<lparr>localEventCallbacks := (localEventCallbacks c)(e \<mapsto> registered c e @ [cb])\<rparr>)) \<and>
   (distinct (registered c e) \<longrightarrow>
      addEventListener e cb (removeEventListener e cb c) =
        Inr ((removeEventListener e cb c)
               \<lparr>localEventCallbacks :=
                  (localEventCallbacks (removeEventListener e cb c))
                    (e \<mapsto> remove1 cb (registered c e) @ [cb])\<rparr>))"
proof (intro conjI impI)
  show "addEventListener e cb c = Inl (ListenerAlreadyAdded e) \<longleftrightarrow> cb \<in> set (registered c e)"
    by (cases "localEventCallbacks c e")
       (auto simp: addEventListener_def registered_def findIndex_nonneg_iff)
next
  assume "cb \<notin> set (registered c e)"
  then show "addEventListener e cb c =
      Inr (c\<lparr>localEventCallbacks := (localEventCallbacks c)(e \<mapsto> registered c e @ [cb])\<rparr>)"
    by (cases "localEventCallbacks c e")
       (auto simp: addEventListener_def registered_def findIndex_nonneg_iff)
next
  let ?c1 = "removeEventListener e cb c"
  assume d: "distinct (registered c e)"
  have r: "registered ?c1 e = remove1 cb (registered c e)"
    by (simp add: registered_removeEventListener)
  from d have "cb \<notin> set (registered ?c1 e)"
    by (simp add: r)
  then have "addEventListener e cb ?c1 =
      Inr (?c1\<lparr>localEventCallbacks := (localEventCallbacks ?c1)(e \<mapsto> registered ?c1 e @ [cb])\<rparr>)"
    by (cases "localEventCallbacks ?c1 e")
       (auto simp: addEventListener_def registered_def findIndex_nonneg_iff)
  then show "addEventListener e cb ?c1 =
      Inr (?c1\<lparr>localEventCallbacks :=
                 (localEventCallbacks ?c1)(e \<mapsto> remove1 cb (registered c e) @ [cb])\<rparr>)"
    by (simp add: r)
qed

theorem addEventListener_duplicate_iff_witness:
  "addEventListener OnStatusChange (Listener 7) (new_connection None False) =
     Inr ((new_connection None False)
            \<lparr>localEventCallbacks := [OnStatusChange \<mapsto> [Listener 7]]\<rparr>) \<and>
   addEventListener OnStatusChange (Listener 7)
     ((new_connection None False)\<lparr>localEventCallbacks := [OnStatusChange \<mapsto> [Listener 7]]\<rparr>) =
     Inl (ListenerAlreadyAdded OnStatusChange) \<and>
   distinct (registered
     ((new_connection None False)\<lparr>localEventCallbacks := [OnStatusChange \<mapsto> [Listener 7]]\<rparr>)
     OnStatusChange) \<and>
   addEventListener OnStatusChange (Listener 7)
     (removeEventListener OnStatusChange (Listener 7)
        ((new_connection None False)\<lparr>localEventCallbacks := [OnStatusChange \<mapsto> [Listener 7]]\<rparr>)) =
     Inr ((new_connection None False)
            \<lparr>localEventCallbacks := [OnStatusChange \<mapsto> [Listener 7]]\<rparr>)"
  using addEventListener_duplicate_iff [of OnStatusChange "Listener 7" "new_connection None False"]
    addEventListener_duplicate_iff [of OnStatusChange "Listener 7"
      "(new_connection None False)\<lparr>localEventCallbacks := [OnStatusChange \<mapsto> [Listener 7]]\<rparr>"]
  by (simp add: registered_def new_connection_def removeEventListener_def indexOf_def
      splice1_def)

text \<open>
  C9. \<open>removeEventListener\<close> has no raising branch (it is a total function of the
  connection). When the callback is not in the sequence of the event type (in particular
  when the event type has no entry) the connection is unchanged; in a registry without
  repetitions removing twice is removing once; removing the only callback of an event
  type deletes the entry, and no removal leaves an empty sequence behind.
\<close>

theorem removeEventListener_idempotent:
  "(cb \<notin> set (registered c e) \<longrightarrow> removeEventListener e cb c = c) \<and>
   (distinct (registered c e) \<longrightarrow>
      removeEventListener e cb (removeEventListener e cb c) = removeEventListener e cb c) \<and>
   (registered c e = [cb] \<longrightarrow> localEventCallbacks (removeEventListener e cb c) e = None) \<and>
   (localEventCallbacks c e \<noteq> Some [] \<longrightarrow>
      localEventCallbacks (removeEventListener e cb c) e \<noteq> Some []) \<and>
   registered (removeEventListener e cb c) e = remove1 cb (registered c e)"
proof (intro conjI impI)
  assume "cb \<notin> set (registered c e)"
  then show "removeEventListener e cb c = c" by (rule removeEventListener_absent)
next
  assume "distinct (registered c e)"
  then have "cb \<notin> set (registered (removeEventListener e cb c) e)"
    by (simp add: registered_removeEventListener)
  then show "removeEventListener e cb (removeEventListener e cb c) = removeEventListener e cb c"
    by (rule removeEventListener_absent)
next
  assume "registered c e = [cb]"
  then show "localEventCallbacks (removeEventListener e cb c) e = None"
    by (simp add: removeEventListener_entry)
next
  assume "localEventCallbacks c e \<noteq> Some []"
  then show "localEventCallbacks (removeEventListener e cb c) e \<noteq> Some []"
    by (simp add: removeEventListener_entry)
next
  show "registered (removeEventListener e cb c) e = remove1 cb (registered c e)"
    by (simp add: registered_removeEventListener)
qed

theorem removeEventListener_idempotent_witness:
  "Listener 1 \<notin> set (registered (new_connection None False) OnStatusChange) \<and>
   removeEventListener OnStatusChange (Listener 1) (new_connection None False) =
     new_connection None False \<and>
   distinct (registered
     ((new_connection None False)\<lparr>localEventCallbacks := [OnStatusChange \<mapsto> [Listener 1]]\<rparr>)
     OnStatusChange) \<and>
   registered
     ((new_connection None False)\<lparr>localEventCallbacks := [OnStatusChange \<mapsto> [Listener 1]]\<rparr>)
     OnStatusChange = [Listener 1] \<and>
   localEventCallbacks
     ((new_connection None False)\<lparr>localEventCallbacks := [OnStatusChange \<mapsto> [Listener 1]]\<rparr>)
     OnStatusChange \<noteq> Some [] \<and>
   localEventCallbacks
     (removeEventListener OnStatusChange (Listener 1)
       ((new_connection None False)\<lparr>localEventCallbacks := [OnStatusChange \<mapsto> [Listener 1]]\<rparr>))
     OnStatusChange = None \<and>
   removeEventListener OnStatusChange (Listener 1)
     (removeEventListener OnStatusChange (Listener 1)
       ((new_connection None False)\<lparr>localEventCallbacks := [OnStatusChange \<mapsto> [Listener 1]]\<rparr>)) =
   removeEventListener OnStatusChange (Listener 1)
     ((new_connection None False)\<lparr>localEventCallbacks := [OnStatusChange \<mapsto> [Listener 1]]\<rparr>)"
  using removeEventListener_idempotent [of "Listener 1" "new_connection None False" OnStatusChange]
    removeEventListener_idempotent [of "Listener 1"
      "(new_connection None False)\<lparr>localEventCallbacks := [OnStatusChange \<mapsto> [Listener 1]]\<rparr>"
      OnStatusChange]
  by (simp add: registered_def new_connection_def removeEventListener_def indexOf_def
      splice1_def)

text \<open>The earlier class beside the current one: with one listener registered, adding
  a different callback raises and adding the same callback again succeeds and stores it
  twice; removing a callback that is not registered raises.\<close>

lemma earlier_class_registry:
  "addEventListener_second OnStatusChange (Listener 2) one_listener =
     Inl (AlreadyAdded OnStatusChange) \<and>
   addEventListener_second OnStatusChange (Listener 5) one_listener =
     Inr (one_listener\<lparr>localEventCallbacks := [OnStatusChange \<mapsto> [Listener 5, Listener 5]]\<rparr>) \<and>
   removeEventListener_second OnStatusChange (Listener 2) one_listener = Inl ReferenceError \<and>
   addEventListener OnStatusChange (Listener 2) one_listener =
     Inr (one_listener\<lparr>localEventCallbacks := [OnStatusChange \<mapsto> [Listener 5, Listener 2]]\<rparr>) \<and>
   addEventListener OnStatusChange (Listener 5) one_listener =
     Inl (ListenerAlreadyAdded OnStatusChange) \<and>
   removeEventListener OnStatusChange (Listener 2) one_listener = one_listener"
  by (simp add: addEventListener_second_def removeEventListener_second_def addEventListener_def
      removeEventListener_def indexOf_def one_listener_def new_connection_def)

section \<open>The envelopes written to the transport\<close>

text \<open>
  C1. Evaluation of \<open>send\<close>, \<open>waiter\<close> and the reply of the dispatch loop: the
  \<open>identifier\<close> written to the transport is the caller's identifier (respectively the
  inbound \<open>callbackId\<close>) with \<open>@\<close> put in front, because \<open>getMessageJSON\<close> prefixes
  exactly when \<open>isBuiltIn\<close> is false. The other two fields are as the claim says.
\<close>

theorem send_prepends_sigil:
  "sent (send i data c) =
     sent c @ [\<lparr> identifier = ''@'' @ i, message = VArr data, callbackId = None \<rparr>] \<and>
   sent (snd (waiter uuid i data c)) =
     sent c @ [\<lparr> identifier = ''@'' @ i, message = VArr data, callbackId = Some uuid \<rparr>] \<and>
   sent (bSend i data c) =
     sent c @ [\<lparr> identifier = i, message = VArr data, callbackId = None \<rparr>] \<and>
   sent (send ''sample'' [VStr ''sampleData''] (new_connection None False)) =
     [\<lparr> identifier = ''@sample'', message = VArr [VStr ''sampleData''], callbackId = None \<rparr>] \<and>
   sent (fst (callEventHandler sample_program sample_parse
           ''{\"identifier\":\"echo\",\"message\":[\"hi\"],\"callbackId\":\"r1\"}''
           (setMessageHandler ''echo'' (UserFn 2) (new_connection None False)))) =
     [\<lparr> identifier = ''@r1'', message = VArr [VStr ''hi!''], callbackId = None \<rparr>]"
proof (intro conjI)
  let ?c = "setMessageHandler ''echo'' (UserFn 2) (new_connection None False)"
  have q: "registered ?c e = []" for e
    by (simp add: registered_def setMessageHandler_def new_connection_def)
  show "sent (fst (callEventHandler sample_program sample_parse
           ''{\"identifier\":\"echo\",\"message\":[\"hi\"],\"callbackId\":\"r1\"}'' ?c)) =
     [\<lparr> identifier = ''@r1'', message = VArr [VStr ''hi!''], callbackId = None \<rparr>]"
    by (simp add: callEventHandler_quiet q sample_parse_def)
       (simp add: dispatch_def lookup_def setMessageHandler_def new_connection_def call_user_def
          sample_program_def send_def connection_send_def getMessageJSON_def)
qed (simp_all add: send_def bSend_def waiter_def connection_send_def getMessageJSON_def
      onceMessageHandler_def new_connection_def Let_def)

text \<open>
  C2. Evaluation of \<open>send\<close> and \<open>waiter\<close> on an argument list that holds a function:
  neither has a check, the call completes and the transport has recorded one message.
  \<open>send\<close> of the earlier variant raises on the same input.
\<close>

theorem send_accepts_function:
  "send ''Client-Server'' [VFun 0] (new_connection None False) =
     (new_connection None False)
       \<lparr>sent := [\<lparr> identifier = ''@Client-Server'', message = VArr [VFun 0], callbackId = None \<rparr>]\<rparr> \<and>
   sent (snd (waiter ''u1'' ''SMTH'' [VFun 0] (new_connection None False))) =
     [\<lparr> identifier = ''@SMTH'', message = VArr [VFun 0], callbackId = Some ''u1'' \<rparr>] \<and>
   send_part_000 ''Client-Server'' [VFun 0] (new_connection None False) = Inl FunctionsProhibited"
  by (simp add: send_def waiter_def connection_send_def getMessageJSON_def
      onceMessageHandler_def new_connection_def Let_def send_part_000_def)

section \<open>Undecodable messages\<close>

text \<open>
  C3, as amended. When \<open>JSON.parse\<close> throws on the text, or the parsed value has no
  \<open>identifier\<close>, \<open>callEventHandler\<close> ends where the listeners of
  \<open>onRawMessageRecieved\<close> left the connection and its promise is rejected: with the
  exception of a listener if one threw, otherwise with the \<open>SyntaxError\<close> of the
  parser, respectively the \<open>TypeError\<close> of \<open>msgObj.identifier[0]\<close>. Nothing
  catches or reports it. The status is unchanged; beyond the raw-message listeners no
  callback runs and nothing is sent.
\<close>

theorem callEventHandler_undecodable:
  assumes "JSON_parse msg = Unparsable \<or> JSON_parse msg = NoIdentifier"
  shows "fst (callEventHandler prog JSON_parse msg c) =
           fst (notify prog OnRawMessageRecieved [VStr msg] c) \<and>
         snd (callEventHandler prog JSON_parse msg c) =
           (case snd (notify prog OnRawMessageRecieved [VStr msg] c) of
              Raised e \<Rightarrow> Raised e
            | Done \<Rightarrow> Raised (if JSON_parse msg = Unparsable then SyntaxError else TypeError)) \<and>
         status (fst (callEventHandler prog JSON_parse msg c)) = status c \<and>
         (registered c OnRawMessageRecieved = [] \<longrightarrow>
            callEventHandler prog JSON_parse msg c =
              (c, Raised (if JSON_parse msg = Unparsable then SyntaxError else TypeError)))"
proof -
  obtain c1 r where n: "notify prog OnRawMessageRecieved [VStr msg] c = (c1, r)"
    by (cases "notify prog OnRawMessageRecieved [VStr msg] c")
  have st: "status c1 = status c"
    using status_notify [of prog OnRawMessageRecieved "[VStr msg]" c] n by simp
  from assms n st show ?thesis
    by (cases r) (auto simp: callEventHandler_def notify_empty)
qed

theorem callEventHandler_undecodable_witness:
  "sample_parse ''{'' = Unparsable \<and>
   callEventHandler sample_program sample_parse ''{'' (new_connection None False) =
     (new_connection None False, Raised SyntaxError) \<and>
   sample_parse ''{\"message\":[]}'' = NoIdentifier \<and>
   callEventHandler sample_program sample_parse ''{\"message\":[]}'' (new_connection None False) =
     (new_connection None False, Raised TypeError)"
  using callEventHandler_undecodable [of sample_parse "''{''" sample_program "new_connection None False"]
    callEventHandler_undecodable [of sample_parse "''{\"message\":[]}''" sample_program
      "new_connection None False"]
  by (simp add: sample_parse_def registered_def new_connection_def)

text \<open>The claim as stated (the loop reports the failure and returns normally) fails:
  on a text that is not JSON, and on the JSON text \<open>null\<close>, the promise of
  \<open>callEventHandler\<close> is rejected.\<close>

theorem malformed_envelope_counterexample:
  "snd (callEventHandler sample_program sample_parse ''{''
          ((new_connection None False)\<lparr>status := OPEN\<rparr>)) = Raised SyntaxError \<and>
   snd (callEventHandler sample_program sample_parse ''null''
          ((new_connection None False)\<lparr>status := OPEN\<rparr>)) = Raised TypeError"
  by (simp add: callEventHandler_quiet registered_def new_connection_def sample_parse_def)

section \<open>Handlers and the truthiness of the message\<close>

text \<open>
  C10. For an inbound envelope that is not a control envelope, let \<open>c2\<close> be the
  connection after the listeners of the two message events have run, with a handler
  registered under the identifier. If the message is falsy (in particular \<open>null\<close>),
  \<open>callEventHandler\<close> ends in \<open>c2\<close>: the handler is not called and nothing is sent,
  whatever the \<open>callbackId\<close>. If the message is the empty array, the handler is called
  with no arguments.
\<close>

theorem handler_needs_truthy_message:
  assumes "notify prog OnRawMessageRecieved [VStr msg] c = (c1, Done)"
    and "JSON_parse msg = Envelope m"
    and "take 1 (identifier m) \<noteq> ''@''"
    and "notify prog OnMessageRecieved [message m] c1 = (c2, Done)"
    and "callbacks c2 (identifier m) = Some h"
  shows "(\<not> truthy (message m) \<longrightarrow> callEventHandler prog JSON_parse msg c = (c2, Done)) \<and>
         (message m = VNull \<longrightarrow> callEventHandler prog JSON_parse msg c = (c2, Done)) \<and>
         (message m = VArr [] \<longrightarrow>
            invoked (fst (callEventHandler prog JSON_parse msg c)) =
              invoked c2 @ [(wrapped h, [])])"
proof -
  have d: "callEventHandler prog JSON_parse msg c = dispatch prog m c2"
    using assms(1-4) by (rule callEventHandler_dispatch)
  have a: "\<not> truthy (message m) \<Longrightarrow> dispatch prog m c2 = (c2, Done)"
    using assms(5) by (simp add: dispatch_def lookup_own)
  have b: "message m = VArr [] \<Longrightarrow>
      invoked (fst (dispatch prog m c2)) = invoked c2 @ [(wrapped h, [])]"
    using assms(5) by (intro invoked_dispatch) simp_all
  from a b show ?thesis by (auto simp: d)
qed

theorem handler_needs_truthy_message_witness:
  "notify sample_program OnRawMessageRecieved
     [VStr ''{\"identifier\":\"echo\",\"message\":null,\"callbackId\":\"r1\"}'']
     (setMessageHandler ''echo'' (UserFn 2) (new_connection None False)) =
     (setMessageHandler ''echo'' (UserFn 2) (new_connection None False), Done) \<and>
   callEventHandler sample_program sample_parse
     ''{\"identifier\":\"echo\",\"message\":null,\"callbackId\":\"r1\"}''
     (setMessageHandler ''echo'' (UserFn 2) (new_connection None False)) =
     (setMessageHandler ''echo'' (UserFn 2) (new_connection None False), Done) \<and>
   invoked (fst (callEventHandler sample_program sample_parse
     ''{\"identifier\":\"echo\",\"message\":[],\"callbackId\":null}''
     (setMessageHandler ''echo'' (UserFn 2) (new_connection None False)))) = [(UserFn 2, [])]"
proof -
  let ?c = "setMessageHandler ''echo'' (UserFn 2) (new_connection None False)"
  let ?t1 = "''{\"identifier\":\"echo\",\"message\":null,\"callbackId\":\"r1\"}''"
  let ?t2 = "''{\"identifier\":\"echo\",\"message\":[],\"callbackId\":null}''"
  let ?m1 = "\<lparr> identifier = ''echo'', message = VNull, callbackId = Some ''r1'' \<rparr>"
  let ?m2 = "\<lparr> identifier = ''echo'', message = VArr [], callbackId = None \<rparr>"
  have q: "registered ?c e = []" for e
    by (simp add: registered_def setMessageHandler_def new_connection_def)
  have n: "notify sample_program e args ?c = (?c, Done)" for e args
    by (rule notify_empty [OF q])
  have p1: "sample_parse ?t1 = Envelope ?m1" by (simp add: sample_parse_def)
  have p2: "sample_parse ?t2 = Envelope ?m2" by (simp add: sample_parse_def)
  have h: "callbacks ?c ''echo'' = Some (Direct (UserFn 2))"
    by (simp add: setMessageHandler_def)
  have i: "invoked ?c = []" by (simp add: setMessageHandler_def new_connection_def)
  from handler_needs_truthy_message [of sample_program ?t1 ?c ?c sample_parse ?m1 ?c
      "Direct (UserFn 2)"]
    handler_needs_truthy_message [of sample_program ?t2 ?c ?c sample_parse ?m2 ?c
      "Direct (UserFn 2)"]
  show ?thesis by (simp add: n p1 p2 h i)
qed

section \<open>One-shot message handlers\<close>

text \<open>
  For an identifier that names no member of \<open>Object.prototype\<close>, on a connection
  without listeners for the two message events: register \<open>f\<close> with
  \<open>onceMessageHandler\<close> under \<open>i\<close> and let an envelope for \<open>i\<close> with a truthy,
  iterable message arrive. Then \<open>f\<close> is called once, with the arguments of the
  envelope; the transport is given what \<open>f\<close> sends and then, when \<open>f\<close> returns and
  the envelope carries a \<open>callbackId\<close>, the reply with the value \<open>f\<close> returned; and
  the handler table afterwards is what the calls of \<open>f\<close> make of the table from which
  the entry for \<open>i\<close> was already removed: a handler \<open>f\<close> registers under \<open>i\<close>
  stays, and when \<open>f\<close> registers none, there is no entry for \<open>i\<close>. With no entry for
  \<open>i\<close>, a later envelope for \<open>i\<close> changes nothing: no callback runs, nothing is sent,
  no error.
\<close>

lemma onceMessageHandler_own_identifier:
  fixes c0 :: ZilaConnection and f :: nat and prog :: program
  assumes "registered c0 OnRawMessageRecieved = []"
    and "registered c0 OnMessageRecieved = []"
    and "JSON_parse msg = Envelope m" and "identifier m = i" and "take 1 i \<noteq> ''@''"
    and "truthy (message m)" and "spread (message m) = Some args"
    and "JSON_parse msg' = Envelope m'" and "identifier m' = i"
    and "i \<notin> set object_prototype_members"
  defines "c \<equiv> onceMessageHandler i (UserFn f) c0"
  defines "c' \<equiv> fst (callEventHandler prog JSON_parse msg c)"
  shows "invoked c' = invoked c0 @ [(UserFn f, args)] \<and>
         sent c' = sent c0 @ concat (map sends (fst (prog f args))) @
                   reply (callbackId m) (snd (prog f args)) \<and>
         callbacks c' = fold table_cmd (fst (prog f args)) ((callbacks c0)(i := None)) \<and>
         (fst (prog f args) = [CallSetMessageHandler i g] \<longrightarrow>
            callbacks c' i = Some (Direct (UserFn g))) \<and>
         ((\<forall>x \<in> set (fst (prog f args)). \<not> registers i x) \<longrightarrow> callbacks c' i = None) \<and>
         (callbacks c' i = None \<longrightarrow> callEventHandler prog JSON_parse msg' c' = (c', Done))"
proof -
  have qc: "registered c OnRawMessageRecieved = []" "registered c OnMessageRecieved = []"
    using assms(1,2) by (simp_all add: c_def registered_onceMessageHandler)
  have h: "callbacks c (identifier m) = Some (OnceWrapper i (UserFn f))"
    using assms(4) by (simp add: c_def onceMessageHandler_def)
  have d: "callEventHandler prog JSON_parse msg c = dispatch prog m c"
    using assms(3,4,5) by (simp add: callEventHandler_quiet [OF qc])
  have c': "c' = fst (dispatch prog m c)" by (simp add: c'_def d)
  have inv: "invoked c' = invoked c0 @ [(UserFn f, args)]"
    using invoked_dispatch [OF h assms(6,7), of prog]
    by (simp add: c' c_def onceMessageHandler_def)
  have snt: "sent c' = sent c0 @ concat (map sends (fst (prog f args))) @
                   reply (callbackId m) (snd (prog f args))"
    using dispatch_once_sent [OF h assms(6,7), of prog]
    by (simp add: c' c_def onceMessageHandler_def)
  have tab: "callbacks c' = fold table_cmd (fst (prog f args)) ((callbacks c0)(i := None))"
    using dispatch_once_user [OF h assms(6,7), of prog]
    by (simp add: c' c_def onceMessageHandler_def)
  have re: "fst (prog f args) = [CallSetMessageHandler i g] \<Longrightarrow>
      callbacks c' i = Some (Direct (UserFn g))"
    by (simp add: tab)
  have un: "\<forall>x \<in> set (fst (prog f args)). \<not> registers i x \<Longrightarrow> callbacks c' i = None"
    unfolding tab by (rule fold_table_cmd_untouched) simp_all
  have qc': "registered c' OnRawMessageRecieved = []" "registered c' OnMessageRecieved = []"
    using registered_dispatch [of prog m c OnRawMessageRecieved]
      registered_dispatch [of prog m c OnMessageRecieved] qc by (simp_all add: c')
  have dr: "callbacks c' i = None \<Longrightarrow> callEventHandler prog JSON_parse msg' c' = (c', Done)"
    using assms(5,8,9,10) by (simp add: callEventHandler_quiet [OF qc'] dispatch_def lookup_none)
  from inv snt tab re un dr show ?thesis by blast
qed

text \<open>
  C6. Evaluation of a one-shot handler registered under \<open>constructor\<close>. The first
  envelope calls the handler once and removes the entry. A later envelope with the same
  identifier is not dropped: the table has no entry of its own, the read
  \<open>this.callbacks["constructor"]\<close> returns the inherited \<open>Object\<close>, which is called
  with the arguments of the envelope, and its result is sent back under the envelope's
  \<open>callbackId\<close>. Under \<open>ONCEMESSAGE\<close>, which names no inherited member, the same later
  envelope leaves the connection as it was.
\<close>

theorem onceMessageHandler_inherited_member:
  "callbacks (fst (callEventHandler sample_program sample_parse
       ''{\"identifier\":\"constructor\",\"message\":[34.67],\"callbackId\":null}''
       (onceMessageHandler ''constructor'' (UserFn 5) (new_connection None False))))
     ''constructor'' = None \<and>
   invoked (fst (callEventHandler sample_program sample_parse
       ''{\"identifier\":\"constructor\",\"message\":[34.67],\"callbackId\":null}''
       (onceMessageHandler ''constructor'' (UserFn 5) (new_connection None False)))) =
     [(UserFn 5, [VNum 34.67])] \<and>
   callEventHandler sample_program sample_parse
       ''{\"identifier\":\"constructor\",\"message\":[],\"callbackId\":\"r1\"}''
       (fst (callEventHandler sample_program sample_parse
         ''{\"identifier\":\"constructor\",\"message\":[34.67],\"callbackId\":null}''
         (onceMessageHandler ''constructor'' (UserFn 5) (new_connection None False)))) =
     ((new_connection None False)
        \<lparr>sent := [\<lparr> identifier = ''@r1'', message = VArr [VObj []], callbackId = None \<rparr>],
         invoked := [(UserFn 5, [VNum 34.67]), (Member ''constructor'', [])]\<rparr>, Done) \<and>
   callEventHandler sample_program sample_parse
       ''{\"identifier\":\"ONCEMESSAGE\",\"message\":[],\"callbackId\":\"r1\"}''
       (fst (callEventHandler sample_program sample_parse
         ''{\"identifier\":\"ONCEMESSAGE\",\"message\":[34.67],\"callbackId\":null}''
         (onceMessageHandler ''ONCEMESSAGE'' (UserFn 5) (new_connection None False)))) =
     ((new_connection None False)\<lparr>invoked := [(UserFn 5, [VNum 34.67])]\<rparr>, Done)"
proof -
  let ?t1 = "''{\"identifier\":\"constructor\",\"message\":[34.67],\"callbackId\":null}''"
  let ?t2 = "''{\"identifier\":\"constructor\",\"message\":[],\"callbackId\":\"r1\"}''"
  let ?u1 = "''{\"identifier\":\"ONCEMESSAGE\",\"message\":[34.67],\"callbackId\":null}''"
  let ?u2 = "''{\"identifier\":\"ONCEMESSAGE\",\"message\":[],\"callbackId\":\"r1\"}''"
  let ?c = "onceMessageHandler ''constructor'' (UserFn 5) (new_connection None False)"
  let ?d = "onceMessageHandler ''ONCEMESSAGE'' (UserFn 5) (new_connection None False)"
  let ?c1 = "(new_connection None False)\<lparr>invoked := [(UserFn 5, [VNum 34.67])]\<rparr>"
  have q: "registered ?c e = []" "registered ?d e = []"
    "registered ((new_connection None False)\<lparr>invoked := xs\<rparr>) e = []" for e xs
    by (simp_all add: registered_def onceMessageHandler_def new_connection_def)
  have a: "fst (callEventHandler sample_program sample_parse ?t1 ?c) = ?c1"
    by (simp add: callEventHandler_quiet q sample_parse_def)
       (simp add: dispatch_def lookup_def onceMessageHandler_def new_connection_def
          call_user_def sample_program_def removeMessageHandler_def Let_def)
  have b: "fst (callEventHandler sample_program sample_parse ?u1 ?d) = ?c1"
    by (simp add: callEventHandler_quiet q sample_parse_def)
       (simp add: dispatch_def lookup_def onceMessageHandler_def new_connection_def
          call_user_def sample_program_def removeMessageHandler_def Let_def)
  have c: "callEventHandler sample_program sample_parse ?t2 ?c1 =
     ((new_connection None False)
        \<lparr>sent := [\<lparr> identifier = ''@r1'', message = VArr [VObj []], callbackId = None \<rparr>],
         invoked := [(UserFn 5, [VNum 34.67]), (Member ''constructor'', [])]\<rparr>, Done)"
    by (simp add: callEventHandler_quiet q sample_parse_def)
       (simp add: dispatch_def lookup_def object_prototype_members_def new_connection_def
          call_member_def send_def connection_send_def getMessageJSON_def)
  have d: "callEventHandler sample_program sample_parse ?u2 ?c1 = (?c1, Done)"
    by (simp add: callEventHandler_quiet q sample_parse_def)
       (simp add: dispatch_def lookup_def object_prototype_members_def new_connection_def)
  show ?thesis
    unfolding a b c d by (simp add: new_connection_def)
qed

section \<open>Waiters\<close>

text \<open>
  C5, as amended. \<open>waiter\<close> creates a promise, stores the one-shot wrapper of its
  resolver under the correlation id and writes the envelope with that \<open>callbackId\<close>.
  When an envelope whose identifier is the correlation id arrives with a truthy, iterable
  message (on a connection without listeners for the two message events), the promise is
  resolved with the first positional argument, whatever the number of arguments
  (\<open>undefined\<close> when there is none), and the entry is removed. The last part states
  the same of the handler lookup itself (lines 220-227), on any connection \<open>d\<close> that
  holds the wrapper of an unsettled promise \<open>p\<close>, with or without listeners.
\<close>

theorem waiter_resolves_with_first_argument:
  fixes c :: ZilaConnection and prog :: program and i :: string and data :: "jsval list"
  assumes "registered c OnRawMessageRecieved = []"
    and "registered c OnMessageRecieved = []"
    and "settled c (promises c) = None"
    and "JSON_parse msg = Envelope m" and "identifier m = uuid" and "take 1 uuid \<noteq> ''@''"
    and "truthy (message m)" and "spread (message m) = Some args"
  defines "c1 \<equiv> snd (waiter uuid i data c)"
  defines "c2 \<equiv> fst (callEventHandler prog JSON_parse msg c1)"
  shows "fst (waiter uuid i data c) = promises c \<and>
         callbacks c1 = (callbacks c)(uuid \<mapsto> OnceWrapper uuid (Resolver (promises c))) \<and>
         sent c1 = sent c @ [getMessageJSON i (VArr data) (Some uuid) False] \<and>
         settled c1 (promises c) = None \<and>
         settled c2 (promises c) = Some (first_arg args) \<and>
         callbacks c2 uuid = None \<and>
         (callbacks d uuid = Some (OnceWrapper uuid (Resolver p)) \<and> settled d p = None \<longrightarrow>
            settled (fst (dispatch prog m d)) p = Some (first_arg args) \<and>
            callbacks (fst (dispatch prog m d)) uuid = None)"
proof -
  have g: "settled (fst (dispatch prog m d)) p = Some (first_arg args) \<and>
           callbacks (fst (dispatch prog m d)) uuid = None"
    if "callbacks d uuid = Some (OnceWrapper uuid (Resolver p)) \<and> settled d p = None"
  proof -
    from that have hd: "callbacks d (identifier m) = Some (OnceWrapper uuid (Resolver p))"
      using assms(5) by simp
    show ?thesis
      using dispatch_once_resolver [OF hd assms(7,8), of prog] that
      by (simp add: resolve_def)
  qed
  have w: "fst (waiter uuid i data c) = promises c"
    "callbacks c1 = (callbacks c)(uuid \<mapsto> OnceWrapper uuid (Resolver (promises c)))"
    "sent c1 = sent c @ [getMessageJSON i (VArr data) (Some uuid) False]"
    "settled c1 = settled c"
    by (simp_all add: c1_def waiter_def Let_def onceMessageHandler_def connection_send_def)
  have q: "registered c1 OnRawMessageRecieved = []" "registered c1 OnMessageRecieved = []"
    using assms(1,2)
    by (simp_all add: c1_def waiter_def Let_def onceMessageHandler_def connection_send_def
        registered_def)
  have h: "callbacks c1 (identifier m) = Some (OnceWrapper uuid (Resolver (promises c)))"
    using assms(5) by (simp add: w)
  have d: "callEventHandler prog JSON_parse msg c1 = dispatch prog m c1"
    using assms(4,5,6) by (simp add: callEventHandler_quiet [OF q])
  have r: "settled c2 = settled (resolve (promises c) (first_arg args) c1)"
    "callbacks c2 = (callbacks c1)(uuid := None)"
    using dispatch_once_resolver [OF h assms(7,8), of prog] by (simp_all add: c2_def d)
  from assms(3) have "settled c2 (promises c) = Some (first_arg args)"
    by (simp add: r resolve_def w)
  with w r assms(3) g show ?thesis by simp
qed

theorem waiter_resolves_with_first_argument_witness:
  "registered (new_connection None False) OnRawMessageRecieved = [] \<and>
   registered (new_connection None False) OnMessageRecieved = [] \<and>
   settled (new_connection None False) (promises (new_connection None False)) = None \<and>
   sample_parse ''{\"identifier\":\"u1\",\"message\":[1,2],\"callbackId\":null}'' =
     Envelope \<lparr> identifier = ''u1'', message = VArr [VNum 1, VNum 2], callbackId = None \<rparr> \<and>
   fst (waiter ''u1'' ''sum'' [VNum 1, VNum 2] (new_connection None False)) = 0 \<and>
   callbacks (snd (waiter ''u1'' ''sum'' [VNum 1, VNum 2] (new_connection None False))) ''u1'' =
     Some (OnceWrapper ''u1'' (Resolver 0)) \<and>
   settled (fst (callEventHandler sample_program sample_parse
       ''{\"identifier\":\"u1\",\"message\":[1,2],\"callbackId\":null}''
       (snd (waiter ''u1'' ''sum'' [VNum 1, VNum 2] (new_connection None False))))) 0 =
     Some (VNum 1) \<and>
   callbacks (fst (callEventHandler sample_program sample_parse
       ''{\"identifier\":\"u1\",\"message\":[1,2],\"callbackId\":null}''
       (snd (waiter ''u1'' ''sum'' [VNum 1, VNum 2] (new_connection None False))))) ''u1'' = None"
proof -
  let ?t = "''{\"identifier\":\"u1\",\"message\":[1,2],\"callbackId\":null}''"
  let ?m = "\<lparr> identifier = ''u1'', message = VArr [VNum 1, VNum 2], callbackId = None \<rparr>"
  have p: "sample_parse ?t = Envelope ?m" by (simp add: sample_parse_def)
  have q: "registered (new_connection None False) e = []" for e
    by (simp add: registered_def new_connection_def)
  have n: "promises (new_connection None False) = 0" "settled (new_connection None False) 0 = None"
    "callbacks (new_connection None False) = Map.empty"
    by (simp_all add: new_connection_def)
  from waiter_resolves_with_first_argument [where c = "new_connection None False"
      and JSON_parse = sample_parse and msg = ?t and m = ?m and uuid = "''u1''"
      and args = "[VNum 1, VNum 2]" and prog = sample_program and i = "''sum''"
      and data = "[VNum 1, VNum 2]"]
  show ?thesis by (simp add: p q n)
qed

text \<open>The claim as stated fails for a reply with two arguments: the promise is
  resolved with the first one, not with the sequence.\<close>

theorem waiter_full_sequence_counterexample:
  "settled (fst (callEventHandler sample_program sample_parse
       ''{\"identifier\":\"u1\",\"message\":[1,2],\"callbackId\":null}''
       (snd (waiter ''u1'' ''sum'' [VNum 1, VNum 2] (new_connection None False))))) 0 =
     Some (VNum 1) \<and>
   settled (fst (callEventHandler sample_program sample_parse
       ''{\"identifier\":\"u1\",\"message\":[1,2],\"callbackId\":null}''
       (snd (waiter ''u1'' ''sum'' [VNum 1, VNum 2] (new_connection None False))))) 0 \<noteq>
     Some (VArr [VNum 1, VNum 2])"
proof -
  let ?c1 = "snd (waiter ''u1'' ''sum'' [VNum 1, VNum 2] (new_connection None False))"
  have q: "registered ?c1 e = []" for e
    by (simp add: waiter_def Let_def onceMessageHandler_def connection_send_def
        registered_def new_connection_def)
  show ?thesis
    by (simp add: callEventHandler_quiet q sample_parse_def)
       (simp add: dispatch_def lookup_def waiter_def Let_def onceMessageHandler_def connection_send_def
          new_connection_def removeMessageHandler_def resolve_def)
qed

section \<open>Notification order and exceptions\<close>

text \<open>
  C7, as amended. Let the sequence registered for an event type consist of application
  functions none of which removes a listener of that event type while it runs. A
  notification (a loop of \<open>callEventHandler\<close>, or the setter of \<open>status\<close>) calls them
  in insertion order with the same arguments, each once, up to and including the first
  one that throws; the exception leaves the loop, so the callbacks after it are not
  called. When none throws, every registered callback is called.
\<close>

theorem notify_calls_until_throw:
  fixes prog :: program
  assumes "registered c e = map Listener fs"
    and "\<forall>f \<in> set fs. \<forall>x \<in> set (fst (prog f args)). \<not> unregisters e x"
  shows "invoked (fst (notify prog e args c)) =
           invoked c @ map (\<lambda>f. (UserFn f, args)) (called prog args fs) \<and>
         snd (notify prog e args c) =
           (if \<exists>f \<in> set fs. snd (prog f args) = Throws then Raised Thrown else Done) \<and>
         (e = OnStatusChange \<and> args = [status_val v] \<longrightarrow>
            invoked (fst (set_status prog v c)) =
              invoked c @ map (\<lambda>f. (UserFn f, args)) (called prog args fs) \<and>
            snd (set_status prog v c) =
              (if \<exists>f \<in> set fs. snd (prog f args) = Throws then Raised Thrown else Done)) \<and>
         ((\<forall>f \<in> set fs. snd (prog f args) \<noteq> Throws) \<longrightarrow> called prog args fs = fs)"
proof -
  have n: "notify prog e args c = for_of prog e args 0 c"
    by (cases "localEventCallbacks c e")
       (simp_all add: notify_def for_of_empty registered_def)
  have a: "invoked (fst (for_of prog e args 0 c)) =
           invoked c @ map (\<lambda>f. (UserFn f, args)) (called prog args fs) \<and>
         snd (for_of prog e args 0 c) =
           (if \<exists>f \<in> set fs. snd (prog f args) = Throws then Raised Thrown else Done)"
    using for_of_calls [where prog = prog and e = e and args = args and c = c and fs = fs and i = 0] assms by simp
  have b: "invoked (fst (set_status prog v c)) =
              invoked c @ map (\<lambda>f. (UserFn f, args)) (called prog args fs) \<and>
            snd (set_status prog v c) =
              (if \<exists>f \<in> set fs. snd (prog f args) = Throws then Raised Thrown else Done)"
    if "e = OnStatusChange" "args = [status_val v]"
  proof -
    let ?c1 = "c\<lparr>status := v\<rparr>"
    have r1: "registered ?c1 e = map Listener fs" using assms(1) by (simp add: registered_def)
    have s: "set_status prog v c = for_of prog e args 0 ?c1"
      using that
      by (cases "localEventCallbacks c OnStatusChange")
         (auto simp: set_status_def Let_def for_of_stop registered_def)
    show ?thesis using for_of_calls [where prog = prog and e = e and args = args and c = ?c1 and fs = fs and i = 0] r1 assms(2) by (simp add: s)
  qed
  from a b called_all [of fs prog args] show ?thesis by (simp add: n)
qed

theorem notify_calls_until_throw_witness:
  "registered two_listeners OnStatusChange = map Listener [6, 2] \<and>
   fst (sample_program 6 [status_val OPEN]) = [] \<and>
   fst (sample_program 2 [status_val OPEN]) = [] \<and>
   fst (sample_program 5 [status_val OPEN]) = [] \<and>
   invoked (fst (set_status sample_program OPEN two_listeners)) = [(UserFn 6, [VNum 1])] \<and>
   snd (set_status sample_program OPEN two_listeners) = Raised Thrown \<and>
   registered two_plain_listeners OnStatusChange = map Listener [2, 5] \<and>
   invoked (fst (set_status sample_program OPEN two_plain_listeners)) =
     [(UserFn 2, [VNum 1]), (UserFn 5, [VNum 1])] \<and>
   snd (set_status sample_program OPEN two_plain_listeners) = Done"
proof -
  have r: "registered two_listeners OnStatusChange = map Listener [6, 2]"
    by (simp add: two_listeners_def registered_def)
  have r2: "registered two_plain_listeners OnStatusChange = map Listener [2, 5]"
    by (simp add: two_plain_listeners_def registered_def)
  have i: "invoked two_listeners = []" "invoked two_plain_listeners = []"
    by (simp_all add: two_listeners_def two_plain_listeners_def new_connection_def)
  from notify_calls_until_throw [where c = two_listeners and e = OnStatusChange and fs = "[6, 2]"
      and prog = sample_program and args = "[status_val OPEN]" and v = OPEN]
    notify_calls_until_throw [where c = two_plain_listeners
      and e = OnStatusChange and fs = "[2, 5]"
      and prog = sample_program and args = "[status_val OPEN]" and v = OPEN]
  show ?thesis by (simp add: r r2 i sample_program_def)
qed

text \<open>The claim as stated fails: the first of two listeners throws and the second is
  never called.\<close>

theorem listener_exception_counterexample:
  "invoked (fst (set_status sample_program OPEN two_listeners)) = [(UserFn 6, [VNum 1])] \<and>
   snd (set_status sample_program OPEN two_listeners) = Raised Thrown \<and>
   registered (fst (set_status sample_program OPEN two_listeners)) OnStatusChange =
     [Listener 6, Listener 2]"
  by (simp add: set_status_def two_listeners_def new_connection_def registered_def
      for_of_step for_of_stop call_user_def sample_program_def Let_def notice_def)

text \<open>Why the amended statement asks that no callback removes a listener during the
  loop: the loop reads the live array by index, so when a \<open>onceCallback\<close> closure
  removes itself the listener after it moves into its place and is skipped.\<close>

lemma for_of_skips_after_removal:
  "invoked (fst (set_status sample_program OPEN two_once_listeners)) = [(UserFn 5, [VNum 1])] \<and>
   snd (set_status sample_program OPEN two_once_listeners) = Done \<and>
   registered (fst (set_status sample_program OPEN two_once_listeners)) OnStatusChange =
     [OnceCallback OnStatusChange 1 4]"
  by (simp add: set_status_def two_once_listeners_def new_connection_def registered_def
      for_of_step for_of_stop call_user_def sample_program_def Let_def notice_def
      removeEventListener_def indexOf_def splice1_def)

section \<open>The status along the transport's events\<close>

text \<open>What \<open>lifecycle_path\<close> admits and what it rules out.\<close>

lemma lifecycle_path_examples:
  "lifecycle_path [OPENING, OPEN, CLOSED] \<and> lifecycle_path [OPENING, CLOSED] \<and>
   lifecycle_path [OPENING, OPEN, ERROR] \<and> \<not> lifecycle_path [OPENING, CLOSED, OPEN] \<and>
   \<not> lifecycle_path [OPEN, ERROR, OPEN] \<and> \<not> lifecycle_path [OPEN, CLOSED, ERROR] \<and>
   \<not> lifecycle_path [OPEN, OPENING]"
  by simp

text \<open>
  C4. Let the connection be in the initial state \<open>OPENING\<close> (or already \<open>OPEN\<close>) and
  let the transport deliver a sequence of open, close, error and message events in which no
  open event comes after a close event. Then the statuses the accessor returns along the
  sequence follow the life cycle: each is the one before it or a later stage, and after
  \<open>CLOSED\<close> or \<open>ERROR\<close> comes nothing else, in particular never \<open>OPEN\<close>. The same
  holds of the notifications made to the listeners of \<open>onStatusChange\<close> during the
  sequence: each listener is called with the value the accessor returns while it runs
  (the field is written before the listeners are called), the values delivered follow the
  life cycle, and no listener is called with \<open>OPEN\<close> after one was called with
  \<open>CLOSED\<close> or \<open>ERROR\<close>. An open event leaves the status \<open>OPEN\<close>, a close event
  \<open>CLOSED\<close>, and a message event leaves it as it is.
\<close>

lemma connected_reached:
  "addEventListener OnStatusChange (Listener 2)
     (last (run sample_program sample_parse None [OpenEvent] connecting)) = Inr connected"
  by (simp add: connected_def connecting_def new_connection_def addEventListener_def
        onopen_def set_status_def registered_def for_of_step for_of_stop notice_def call_user_def
        sample_program_def Let_def removeEventListener_def indexOf_def splice1_def)

theorem status_follows_lifecycle:
  fixes prog :: program and JSON_parse :: "string \<Rightarrow> decoded" and ecb :: "nat option"
    and c :: ZilaConnection and evs :: "ws_event list"
  assumes "status c = OPENING \<or> status c = OPEN" and "ordered evs"
  defines "c' \<equiv> last (run prog JSON_parse ecb evs c)"
  shows "lifecycle_path (map status (run prog JSON_parse ecb evs c)) \<and>
         \<not> open_after_terminal (map status (run prog JSON_parse ecb evs c)) \<and>
         (\<forall>x \<in> set (delivered_since c c'). fst x = [status_val (snd x)]) \<and>
         lifecycle_path (map snd (delivered_since c c')) \<and>
         \<not> open_after_terminal (map snd (delivered_since c c')) \<and>
         status (fst (deliver prog JSON_parse ecb OpenEvent d)) = OPEN \<and>
         status (fst (deliver prog JSON_parse ecb (CloseEvent reason) d)) = CLOSED \<and>
         status (fst (deliver prog JSON_parse ecb (MessageEvent data) d)) = status d"
proof -
  have nc: "status c = CLOSED \<longrightarrow> OpenEvent \<notin> set evs" and ne: "status c \<noteq> ERROR"
    using assms(1) by auto
  have p: "lifecycle_path (map status (run prog JSON_parse ecb evs c))"
    using statuses_lifecycle [OF assms(2) nc ne] by (simp add: run_statuses)
  obtain zs where zs: "delivered c' = delivered c @ zs"
    "\<forall>x \<in> set zs. fst x = [status_val (snd x)] \<and> advance (status c) (snd x)"
    "lifecycle_path (map snd zs)"
    using run_delivered [OF assms(2) nc ne] unfolding c'_def by blast
  have ds: "delivered_since c c' = zs" by (simp add: delivered_since_def zs(1))
  have ev: "status (fst (deliver prog JSON_parse ecb OpenEvent d)) = OPEN"
    "status (fst (deliver prog JSON_parse ecb (CloseEvent reason) d)) = CLOSED"
    "status (fst (deliver prog JSON_parse ecb (MessageEvent data) d)) = status d"
    by (simp_all only: status_deliver status_after.simps)
  from p zs(2,3) ev show ?thesis
    by (simp add: ds lifecycle_path_terminal del: deliver.simps)
qed

theorem status_follows_lifecycle_witness:
  "status connecting = OPENING \<and>
   ordered [OpenEvent,
            MessageEvent ''{\"identifier\":\"echo\",\"message\":[\"hi\"],\"callbackId\":\"r1\"}'',
            CloseEvent ''bye''] \<and>
   map status (run sample_program sample_parse None
       [OpenEvent,
        MessageEvent ''{\"identifier\":\"echo\",\"message\":[\"hi\"],\"callbackId\":\"r1\"}'',
        CloseEvent ''bye''] connecting) = [OPENING, OPEN, OPEN, CLOSED] \<and>
   lifecycle_path [OPENING, OPEN, OPEN, CLOSED] \<and>
   \<not> open_after_terminal [OPENING, OPEN, OPEN, CLOSED] \<and>
   delivered_since connecting (last (run sample_program sample_parse None
       [OpenEvent,
        MessageEvent ''{\"identifier\":\"echo\",\"message\":[\"hi\"],\"callbackId\":\"r1\"}'',
        CloseEvent ''bye''] connecting)) = [([VNum 1], OPEN)] \<and>
   ordered [ErrorEvent, CloseEvent ''refused''] \<and>
   map status (run sample_program sample_parse None
       [ErrorEvent, CloseEvent ''refused''] connecting) = [OPENING, OPENING, CLOSED] \<and>
   delivered_since connecting (last (run sample_program sample_parse None
       [ErrorEvent, CloseEvent ''refused''] connecting)) = [([VNum 2], CLOSED)] \<and>
   status connected = OPEN \<and>
   map status (run sample_program sample_parse None
       [MessageEvent ''{\"identifier\":\"echo\",\"message\":[\"hi\"],\"callbackId\":\"r1\"}'',
        CloseEvent ''bye''] connected) = [OPEN, OPEN, CLOSED] \<and>
   delivered connected = [([VNum 1], OPEN)] \<and>
   delivered_since connected (last (run sample_program sample_parse None
       [MessageEvent ''{\"identifier\":\"echo\",\"message\":[\"hi\"],\"callbackId\":\"r1\"}'',
        CloseEvent ''bye''] connected)) = [([VNum 2], CLOSED)]"
proof -
  let ?t = "''{\"identifier\":\"echo\",\"message\":[\"hi\"],\"callbackId\":\"r1\"}''"
  have s: "status connecting = OPENING" "status connected = OPEN"
    by (simp_all add: connecting_def connected_def new_connection_def)
  have d0: "delivered connected = [([VNum 1], OPEN)]"
    by (simp add: delivered_def connected_def new_connection_def)
  have d1: "delivered_since connecting (last (run sample_program sample_parse None
       [OpenEvent, MessageEvent ?t, CloseEvent ''bye''] connecting)) = [([VNum 1], OPEN)]"
    by (simp add: delivered_since_def delivered_def connecting_def new_connection_def
        onopen_def onclose_def onmessage_def callEventHandler_def notify_def sample_parse_def
        dispatch_def lookup_def object_prototype_members_def
        set_status_def registered_def for_of_step for_of_stop notice_def call_user_def
        sample_program_def Let_def removeEventListener_def indexOf_def splice1_def)
  have d2: "delivered_since connecting (last (run sample_program sample_parse None
       [ErrorEvent, CloseEvent ''refused''] connecting)) = [([VNum 2], CLOSED)]"
    by (simp add: delivered_since_def delivered_def connecting_def new_connection_def
        onerror_def onclose_def
        set_status_def registered_def for_of_step for_of_stop notice_def call_user_def
        sample_program_def Let_def removeEventListener_def indexOf_def splice1_def)
  have d3: "delivered_since connected (last (run sample_program sample_parse None
       [MessageEvent ?t, CloseEvent ''bye''] connected)) = [([VNum 2], CLOSED)]"
    by (simp add: delivered_since_def delivered_def connected_def new_connection_def
        onclose_def onmessage_def callEventHandler_def notify_def sample_parse_def
        dispatch_def lookup_def object_prototype_members_def
        set_status_def registered_def for_of_step for_of_stop notice_def call_user_def
        sample_program_def Let_def)
  from status_follows_lifecycle [where c = connecting and prog = sample_program
      and JSON_parse = sample_parse and ecb = None
      and evs = "[OpenEvent, MessageEvent ?t, CloseEvent ''bye'']"]
    status_follows_lifecycle [where c = connecting and prog = sample_program
      and JSON_parse = sample_parse and ecb = None
      and evs = "[ErrorEvent, CloseEvent ''refused'']"]
    status_follows_lifecycle [where c = connected and prog = sample_program
      and JSON_parse = sample_parse and ecb = None
      and evs = "[MessageEvent ?t, CloseEvent ''bye'']"]
  show ?thesis
    by (simp add: s d0 d1 d2 d3 run_statuses del: run.simps)
qed

end
